theory Spec2Isabelle
  imports Main "HOL-Library.Multiset" "HOL-Library.Char_ord" "HOL-Library.List_Lexorder"
    "HOL-Library.Product_Lexorder"
begin

section \<open>The clients table\<close>

text \<open>
  A row of the table \<open>clients\<close>, with the columns the update handler of
  \<open>src/server.js\<close> reads and writes. The column \<open>id\<close> is named \<open>client_id\<close>
  here, since \<open>id\<close> is the identity function of HOL.
\<close>

record client =
  client_id :: int
  status :: string
  priority :: int

text \<open>
  The database is the list of its rows in storage order, the order in which
  \<open>SELECT * FROM clients\<close> yields them. The columns \<open>id\<close> and \<open>priority\<close> are
  stored as integers.
\<close>

type_synonym db = "client list"

subsection \<open>JavaScript numbers\<close>

text \<open>
  The handler receives every integer column of a row as a JavaScript number, a double.
  An integer below \<open>2^53\<close> in absolute value is read exactly
  (\<open>Number.isSafeInteger\<close>); a larger one is read as the nearest double, a tie going
  to the even significand of 53 bits. So the stored ids \<open>2^53\<close> and \<open>2^53 + 1\<close> are
  both read as \<open>2^53\<close>.
\<close>

definition safe_integer :: "int \<Rightarrow> bool" where
  "safe_integer n = (\<bar>n\<bar> < 2 ^ 53)"

text \<open>
  The distance between neighbouring doubles at a magnitude \<open>m\<close>: 1 below \<open>2^53\<close>,
  2 below \<open>2^54\<close>, and so on.
\<close>

function ulp :: "int \<Rightarrow> int" where
  "ulp m = (if m < 9007199254740992 then 1 else 2 * ulp (m div 2))"
  by pat_completeness auto
termination
  by (relation "measure nat") auto

definition to_double :: "int \<Rightarrow> int" where
  "to_double n =
     (if \<bar>n\<bar> < 2 ^ 53 then n
      else (let m = \<bar>n\<bar>;
                u = ulp m;
                q = m div u;
                r = m mod u;
                k = (if 2 * r < u then q
                     else if u < 2 * r then q + 1
                     else if even q then q else q + 1)
            in sgn n * (k * u)))"

text \<open>A row as the handler receives it from \<open>db.get\<close> and \<open>db.all\<close>.\<close>

definition read_row :: "client \<Rightarrow> client" where
  "read_row c = c\<lparr>client_id := to_double (client_id c), priority := to_double (priority c)\<rparr>"

subsection \<open>The statements of the handler\<close>

text \<open>
  A number bound to \<open>?\<close> in \<open>WHERE id = ?\<close> is compared with the stored integer
  exactly; the rows a \<open>SELECT\<close> yields are read by \<open>read_row\<close>.
\<close>

text \<open>\<open>SELECT * FROM clients\<close>\<close>

definition select_all :: "db \<Rightarrow> client list" where
  "select_all db = map read_row db"

text \<open>\<open>SELECT * FROM clients WHERE id = ? LIMIT 1\<close>\<close>

definition select_by_id :: "db \<Rightarrow> int \<Rightarrow> client option" where
  "select_by_id db i = map_option read_row (find (\<lambda>c. client_id c = i) db)"

text \<open>\<open>SELECT * FROM clients WHERE status = ? ORDER BY priority\<close> (the database sorts
  on the stored priorities; rows of equal priority stay in storage order)\<close>

definition select_by_status_ordered :: "db \<Rightarrow> string \<Rightarrow> client list" where
  "select_by_status_ordered db s =
     map read_row (sort_key priority (filter (\<lambda>c. status c = s) db))"

text \<open>\<open>SELECT * FROM clients ORDER BY status, priority\<close>\<close>

definition select_all_ordered :: "db \<Rightarrow> client list" where
  "select_all_ordered db = map read_row (sort_key (\<lambda>c. (status c, priority c)) db)"

text \<open>\<open>UPDATE clients SET status = ? WHERE id = ?\<close>\<close>

definition update_status :: "string \<Rightarrow> int \<Rightarrow> db \<Rightarrow> db" where
  "update_status s i db = map (\<lambda>c. if client_id c = i then c\<lparr>status := s\<rparr> else c) db"

text \<open>\<open>UPDATE clients SET priority = ? WHERE id = ?\<close>\<close>

definition update_priority :: "int \<Rightarrow> int \<Rightarrow> db \<Rightarrow> db" where
  "update_priority p i db = map (\<lambda>c. if client_id c = i then c\<lparr>priority := p\<rparr> else c) db"

section \<open>Responses\<close>

datatype body =
  MessageObj string string
  | Message string
  | Clients "client list"

datatype response = Response (code: nat) (body: body)

text \<open>The decimal digits of a number, as a template literal prints it.\<close>

fun string_of_nat :: "nat \<Rightarrow> string" where
  "string_of_nat n =
     (if n < 10 then [''0123456789'' ! n]
      else string_of_nat (n div 10) @ [''0123456789'' ! (n mod 10)])"

section \<open>The handler of PUT /api/v1/clients/:id\<close>

text \<open>
  \<open>src/server.js\<close> registers two handlers for this route. The first one (lines 107 to
  161, with \<open>async\<close>/\<open>await\<close>) answers every request and never passes it on, so the
  second one (lines 177 to 239) is never run; the first one is modelled here. The
  statements of the handler run one after the other on the database, each \<open>await\<close>ed
  before the next; the body's \<open>status\<close> is a string and its \<open>priority\<close> an integer
  when they are present.
\<close>

datatype validation = Valid | Invalid string string

text \<open>
  \<open>parseInt(req.params.id, 10)\<close>: the path parameter is given as the integer its digits
  denote, \<open>None\<close> when it does not start with a number; the result is a JavaScript
  number, \<open>None\<close> for \<open>NaN\<close>.
\<close>

definition parseInt :: "int option \<Rightarrow> int option" where
  "parseInt a = map_option to_double a"

text \<open>\<open>validateId\<close>, on the parsed id.\<close>

definition validateId :: "db \<Rightarrow> int option \<Rightarrow> validation" where
  "validateId db id_param =
     (case id_param of
        None \<Rightarrow> Invalid ''Invalid id provided.'' ''Id can only be an integer.''
      | Some i \<Rightarrow>
          (case select_by_id db i of
             None \<Rightarrow> Invalid ''Invalid id provided.'' ''Cannot find client with that id.''
           | Some _ \<Rightarrow> Valid))"

text \<open>
  The body's \<open>status\<close> and \<open>priority\<close> are optional; \<open>if (status)\<close> and
  \<open>if (priority)\<close> test them for truthiness, so the empty string and the number 0
  count as absent.
\<close>

definition truthy_status :: "string option \<Rightarrow> bool" where
  "truthy_status st = (case st of None \<Rightarrow> False | Some s \<Rightarrow> s \<noteq> [])"

definition truthy_priority :: "int option \<Rightarrow> bool" where
  "truthy_priority pr = (case pr of None \<Rightarrow> False | Some p \<Rightarrow> p \<noteq> 0)"

text \<open>\<open>status || client.status\<close>\<close>

definition status_or :: "string option \<Rightarrow> string \<Rightarrow> string" where
  "status_or st d = (case st of None \<Rightarrow> d | Some s \<Rightarrow> if s = [] then d else s)"

text \<open>
  The loop \<open>for (let i = 0; i < xs.length; i++)\<close> that writes priority \<open>i + 1\<close> to
  the row with the id of \<open>xs[i]\<close>, as the handler read it; the second argument is \<open>i\<close>.
\<close>

fun rerank :: "client list \<Rightarrow> nat \<Rightarrow> db \<Rightarrow> db" where
  "rerank [] i db = db"
| "rerank (c # cs) i db = rerank cs (Suc i) (update_priority (int i + 1) (client_id c) db)"

text \<open>
  \<open>xs.splice(start, 0, x)\<close>: a negative start counts from the end, and the start
  is clamped to the list.
\<close>

definition splice :: "int \<Rightarrow> 'a \<Rightarrow> 'a list \<Rightarrow> 'a list" where
  "splice start x xs =
     (let n = int (length xs);
          k = (if start < 0 then max (n + start) 0 else min start n)
      in take (nat k) xs @ x # drop (nat k) xs)"

text \<open>The body of \<open>if (status && client.status !== status)\<close>, lines 124 to 135.\<close>

definition change_status :: "db \<Rightarrow> client list \<Rightarrow> client \<Rightarrow> int \<Rightarrow> string \<Rightarrow> db" where
  "change_status db clients cl i s =
     (let db1 = update_status s i db;
          oldStatusClients = filter (\<lambda>c. status c = status cl \<and> client_id c \<noteq> i) clients;
          db2 = rerank oldStatusClients 0 db1;
          newStatusClients = filter (\<lambda>c. status c = s) clients;
          newPriority = int (length newStatusClients) + 1
      in update_priority newPriority i db2)"

text \<open>The last two lines of the handler: the rows in presentation order, with code 200.\<close>

definition send_clients :: "db \<Rightarrow> response \<times> db" where
  "send_clients db = (Response 200 (Clients (select_all_ordered db)), db)"

text \<open>The body of \<open>if (priority)\<close>, lines 139 to 156, and what follows it.\<close>

definition change_priority :: "db \<Rightarrow> client \<Rightarrow> int \<Rightarrow> string option \<Rightarrow> int \<Rightarrow> response \<times> db" where
  "change_priority db cl i st p =
     (let currentStatus = status_or st (status cl);
          swimlaneClients = filter (\<lambda>c. client_id c \<noteq> i) (select_by_status_ordered db currentStatus)
      in if p < 1 \<or> p > int (length swimlaneClients) + 1 then
           (Response 400 (MessageObj ''Invalid priority.''
              (''Priority must be between 1 and '' @ string_of_nat (length swimlaneClients + 1) @ ''.'')),
            db)
         else send_clients (rerank (splice (p - 1) cl swimlaneClients) 0 db))"

text \<open>
  The handler: the database before, the path parameter \<open>:id\<close>, the body's \<open>status\<close>
  and \<open>priority\<close>; it gives the response and the database after. \<open>clients\<close> and
  \<open>client\<close> are rows as read, so \<open>clients.find\<close> compares the read ids with the
  parsed id.
\<close>

definition put_client :: "db \<Rightarrow> int option \<Rightarrow> string option \<Rightarrow> int option \<Rightarrow> response \<times> db" where
  "put_client db id_param st pr =
     (case validateId db (parseInt id_param) of
        Invalid m l \<Rightarrow> (Response 400 (MessageObj m l), db)
      | Valid \<Rightarrow>
          (case parseInt id_param of
             None \<Rightarrow> (Response 404 (Message ''Client not found.''), db)
           | Some i \<Rightarrow>
               (case find (\<lambda>c. client_id c = i) (select_all db) of
                  None \<Rightarrow> (Response 404 (Message ''Client not found.''), db)
                | Some cl \<Rightarrow>
                    (let db1 = (case st of
                                  None \<Rightarrow> db
                                | Some s \<Rightarrow>
                                    if truthy_status st \<and> status cl \<noteq> s
                                    then change_status db (select_all db) cl i s
                                    else db)
                     in case pr of
                          None \<Rightarrow> send_clients db1
                        | Some p \<Rightarrow>
                            if truthy_priority pr then change_priority db1 cl i st p
                            else send_clients db1))))"

section \<open>Lanes, ranks and the rank invariant\<close>

text \<open>The stored row with id \<open>i\<close>.\<close>

definition stored_row :: "db \<Rightarrow> int \<Rightarrow> client option" where
  "stored_row db i = find (\<lambda>c. client_id c = i) db"

text \<open>The lane of a status: its rows, in storage order.\<close>

definition lane :: "db \<Rightarrow> string \<Rightarrow> client list" where
  "lane db s = filter (\<lambda>c. status c = s) db"

text \<open>The rows of a lane other than the row with id \<open>i\<close>.\<close>

definition others :: "db \<Rightarrow> string \<Rightarrow> int \<Rightarrow> client list" where
  "others db s i = filter (\<lambda>c. status c = s \<and> client_id c \<noteq> i) db"

text \<open>The priorities of the rows are exactly 1, 2, ..., N, each once.\<close>

definition contiguous :: "client list \<Rightarrow> bool" where
  "contiguous xs = (sort (map priority xs) = map int [1..<Suc (length xs)])"

definition rank_invariant :: "db \<Rightarrow> bool" where
  "rank_invariant db = (\<forall>s \<in> set (map status db). contiguous (lane db s))"

text \<open>The column \<open>id\<close> is the key of the table.\<close>

definition unique_ids :: "db \<Rightarrow> bool" where
  "unique_ids db = distinct (map client_id db)"

text \<open>Every stored id is a safe integer, so the handler reads it exactly.\<close>

definition safe_ids :: "db \<Rightarrow> bool" where
  "safe_ids db = list_all safe_integer (map client_id db)"

text \<open>Every stored priority is a safe integer.\<close>

definition safe_priorities :: "db \<Rightarrow> bool" where
  "safe_priorities db = list_all safe_integer (map priority db)"

text \<open>The position of the first row with id \<open>i\<close> in a list of rows.\<close>

fun index_of :: "int \<Rightarrow> client list \<Rightarrow> nat option" where
  "index_of i [] = None"
| "index_of i (c # cs) = (if client_id c = i then Some 0 else map_option Suc (index_of i cs))"

text \<open>
  What \<open>rerank cs k\<close> does to one row when the ids of \<open>cs\<close> are distinct: a row
  whose id stands at position \<open>j\<close> of \<open>cs\<close> gets priority \<open>k + j + 1\<close>.
\<close>

definition assign :: "client list \<Rightarrow> nat \<Rightarrow> client \<Rightarrow> client" where
  "assign cs k c =
     (case index_of (client_id c) cs of None \<Rightarrow> c | Some j \<Rightarrow> c\<lparr>priority := int (k + j) + 1\<rparr>)"

definition rank_in :: "client list \<Rightarrow> int \<Rightarrow> int" where
  "rank_in cs j = (case index_of j cs of None \<Rightarrow> 0 | Some k \<Rightarrow> int k + 1)"

text \<open>What the status change does to one row, when the ids are unique and read exactly.\<close>

definition moved :: "db \<Rightarrow> client \<Rightarrow> int \<Rightarrow> string \<Rightarrow> client \<Rightarrow> client" where
  "moved db cl i s c =
     (if client_id c = i then c\<lparr>status := s, priority := int (length (lane db s)) + 1\<rparr>
      else assign (others db (status cl) i) 0 c)"

text \<open>The stored rows of a lane in priority order, without the row with id \<open>i\<close>.\<close>

definition swimlane :: "db \<Rightarrow> string \<Rightarrow> int \<Rightarrow> client list" where
  "swimlane db s i = filter (\<lambda>c. client_id c \<noteq> i) (sort_key priority (lane db s))"

text \<open>The swimlane with a row inserted at the zero-based index \<open>p - 1\<close>.\<close>

definition new_sequence :: "db \<Rightarrow> client \<Rightarrow> int \<Rightarrow> string \<Rightarrow> int \<Rightarrow> client list" where
  "new_sequence db cl i s p =
     take (nat (p - 1)) (swimlane db s i) @ cl # drop (nat (p - 1)) (swimlane db s i)"

text \<open>The request asks for a lane change: \<open>status && client.status !== status\<close>.\<close>

definition lane_change_requested :: "string option \<Rightarrow> client \<Rightarrow> bool" where
  "lane_change_requested st cl =
     (case st of None \<Rightarrow> False | Some s \<Rightarrow> s \<noteq> [] \<and> s \<noteq> status cl)"

text \<open>
  The database after the first \<open>if\<close> of the handler, for the stored target row \<open>cl\<close>.
\<close>

definition after_status :: "db \<Rightarrow> client \<Rightarrow> int \<Rightarrow> string option \<Rightarrow> db" where
  "after_status db cl i st =
     (case st of None \<Rightarrow> db
      | Some s \<Rightarrow>
          if lane_change_requested st cl
          then change_status db (select_all db) (read_row cl) i s else db)"

text \<open>A row, for the examples.\<close>

definition row :: "int \<Rightarrow> string \<Rightarrow> int \<Rightarrow> client" where
  "row i s p = \<lparr>client_id = i, status = s, priority = p\<rparr>"

section \<open>Lemmas\<close>

subsection \<open>Reading integers\<close>

lemma to_double_safe: "safe_integer n \<Longrightarrow> to_double n = n"
  by (simp add: to_double_def safe_integer_def)

lemma to_double_small: "\<bar>n\<bar> < 9007199254740992 \<Longrightarrow> to_double n = n"
  by (simp add: to_double_def)

lemma to_double_large:
  "to_double 9007199254740992 = 9007199254740992"
  "to_double 9007199254740993 = 9007199254740992"
  "to_double 9007199254740995 = 9007199254740996"
  "to_double 9007199254740996 = 9007199254740996"
  unfolding to_double_def Let_def by simp_all

lemmas handler_defs =
  put_client_def validateId_def select_by_id_def select_all_def truthy_status_def
  truthy_priority_def change_status_def change_priority_def update_status_def
  update_priority_def status_or_def select_by_status_ordered_def splice_def
  send_clients_def select_all_ordered_def row_def read_row_def parseInt_def
  to_double_small to_double_large Let_def

lemma read_row_status [simp]: "status (read_row c) = status c"
  by (simp add: read_row_def)

lemma read_row_id: "client_id (read_row c) = to_double (client_id c)"
  by (simp add: read_row_def)

lemma safe_ids_iff: "safe_ids db \<longleftrightarrow> (\<forall>c \<in> set db. safe_integer (client_id c))"
  by (simp add: safe_ids_def list_all_iff)

lemma safe_ids_row: "safe_ids db \<Longrightarrow> c \<in> set db \<Longrightarrow> safe_integer (client_id c)"
  by (simp add: safe_ids_iff)

lemma safe_ids_read: "safe_ids db \<Longrightarrow> c \<in> set db \<Longrightarrow> client_id (read_row c) = client_id c"
  by (simp add: read_row_id to_double_safe safe_ids_row)

lemma safe_ids_ids: "map client_id db' = map client_id db \<Longrightarrow> safe_ids db' = safe_ids db"
  by (simp add: safe_ids_def)

lemma read_rows_ids:
  assumes "safe_ids db" and "set xs \<subseteq> set db"
  shows "map client_id (map read_row xs) = map client_id xs"
  unfolding map_map comp_def
  by (rule map_cong[OF refl]) (use assms in \<open>auto intro: safe_ids_read\<close>)

lemma filter_read_rows:
  assumes "safe_ids db" and "set xs \<subseteq> set db"
  shows "filter (\<lambda>c. P (status c) (client_id c)) (map read_row xs)
     = map read_row (filter (\<lambda>c. P (status c) (client_id c)) xs)"
proof -
  have "filter ((\<lambda>c. P (status c) (client_id c)) \<circ> read_row) xs
      = filter (\<lambda>c. P (status c) (client_id c)) xs"
    by (rule filter_cong[OF refl]) (use assms in \<open>auto simp: safe_ids_read\<close>)
  then show ?thesis by (simp only: filter_map)
qed

lemma find_map_rows: "find P (map f xs) = map_option f (find (P \<circ> f) xs)"
  by (induction xs) simp_all

lemma find_read_rows:
  assumes "safe_ids db"
  shows "find (\<lambda>c. client_id c = i) (map read_row db)
     = map_option read_row (find (\<lambda>c. client_id c = i) db)"
proof -
  have "find ((\<lambda>c. client_id c = i) \<circ> read_row) db = find (\<lambda>c. client_id c = i) db"
    by (rule find_cong[OF refl]) (use assms in \<open>auto simp: safe_ids_read\<close>)
  then show ?thesis by (simp only: find_map_rows)
qed

subsection \<open>Ranks by position\<close>

lemma index_of_None_iff: "index_of i cs = None \<longleftrightarrow> i \<notin> client_id ` set cs"
  by (induction cs) auto

lemma index_of_SomeD: "index_of i cs = Some j \<Longrightarrow> j < length cs \<and> client_id (cs ! j) = i"
  by (induction cs arbitrary: j) (auto split: if_splits)

lemma index_of_nth:
  "distinct (map client_id cs) \<Longrightarrow> j < length cs \<Longrightarrow> index_of (client_id (cs ! j)) cs = Some j"
proof (induction cs arbitrary: j)
  case Nil
  then show ?case by simp
next
  case (Cons c cs)
  show ?case
  proof (cases j)
    case 0
    then show ?thesis by simp
  next
    case (Suc m)
    with Cons.prems have m: "m < length cs" by simp
    then have "cs ! m \<in> set cs" by simp
    then have "client_id (cs ! m) \<in> client_id ` set cs" by (rule imageI)
    with Cons.prems have "client_id (cs ! m) \<noteq> client_id c" by auto
    with Cons m Suc show ?thesis by simp
  qed
qed

lemma index_of_cong: "map client_id cs = map client_id ds \<Longrightarrow> index_of i cs = index_of i ds"
proof (induction cs arbitrary: ds)
  case Nil
  then show ?case by simp
next
  case (Cons c cs)
  then obtain d ds' where "ds = d # ds'" "client_id d = client_id c" "map client_id cs = map client_id ds'"
    by (cases ds) auto
  with Cons.IH[of ds'] show ?case by simp
qed

lemma assign_id [simp]: "client_id (assign cs k c) = client_id c"
  by (simp add: assign_def split: option.splits)

lemma assign_status [simp]: "status (assign cs k c) = status c"
  by (simp add: assign_def split: option.splits)

lemma assign_other: "client_id c \<notin> client_id ` set cs \<Longrightarrow> assign cs k c = c"
  by (simp add: assign_def index_of_None_iff[symmetric])

lemma rerank_assign:
  "distinct (map client_id cs) \<Longrightarrow> rerank cs k db = map (assign cs k) db"
proof (induction cs arbitrary: k db)
  case Nil
  then show ?case by (simp add: assign_def)
next
  case (Cons c cs)
  have "rerank (c # cs) k db = map (assign cs (Suc k)) (update_priority (int k + 1) (client_id c) db)"
    using Cons by simp
  also have "\<dots> = map (assign (c # cs) k) db"
    using Cons.prems
    by (auto simp: update_priority_def assign_def index_of_None_iff[symmetric] split: option.splits)
  finally show ?case .
qed

lemma rerank_ids_cong:
  "map client_id cs = map client_id ds \<Longrightarrow> rerank cs k db = rerank ds k db"
proof (induction cs arbitrary: ds k db)
  case Nil
  then show ?case by simp
next
  case (Cons c cs)
  then obtain d ds' where ds: "ds = d # ds'" "client_id d = client_id c" "map client_id cs = map client_id ds'"
    by (cases ds) auto
  with Cons.IH[of ds'] show ?case by simp
qed

lemma unique_ids_eq:
  "unique_ids db \<Longrightarrow> c \<in> set db \<Longrightarrow> d \<in> set db \<Longrightarrow> client_id c = client_id d \<Longrightarrow> c = d"
  unfolding unique_ids_def by (meson distinct_map inj_onD)

lemma stored_row_SomeD: "stored_row db i = Some cl \<Longrightarrow> cl \<in> set db \<and> client_id cl = i"
  unfolding stored_row_def by (auto simp: find_Some_iff)

lemma stored_row_None: "stored_row db i = None \<longleftrightarrow> i \<notin> client_id ` set db"
  unfolding stored_row_def by (auto simp: find_None_iff)

lemma stored_row_unique:
  "unique_ids db \<Longrightarrow> c \<in> set db \<Longrightarrow> stored_row db (client_id c) = Some c"
proof -
  assume u: "unique_ids db" and c: "c \<in> set db"
  then have "stored_row db (client_id c) \<noteq> None"
    by (auto simp: stored_row_None)
  then obtain d where d: "stored_row db (client_id c) = Some d" by blast
  with stored_row_SomeD[OF d] unique_ids_eq[OF u _ c] show ?thesis by auto
qed

lemma stored_row_map:
  "(\<And>c. client_id (f c) = client_id c) \<Longrightarrow> stored_row (map f db) i = map_option f (stored_row db i)"
  unfolding stored_row_def by (induction db) auto

lemma others_distinct: "unique_ids db \<Longrightarrow> distinct (map client_id (others db s i))"
  unfolding unique_ids_def others_def by (simp add: distinct_map_filter)

lemma moved_pointwise:
  assumes "i \<notin> client_id ` set old"
  shows "(\<lambda>c. if client_id c = i then c\<lparr>priority := p\<rparr> else c) (assign old 0 ((\<lambda>c. if client_id c = i then c\<lparr>status := s\<rparr> else c) c))
     = (if client_id c = i then c\<lparr>status := s, priority := p\<rparr> else assign old 0 c)"
  using assms by (cases "client_id c = i") (simp_all add: assign_other)

lemma change_status_unfold:
  assumes sf: "safe_ids db"
  shows "change_status db (select_all db) (read_row cl) i s =
      update_priority (int (length (lane db s)) + 1) i
        (rerank (others db (status cl) i) 0 (update_status s i db))"
proof -
  have old: "filter (\<lambda>c. status c = status (read_row cl) \<and> client_id c \<noteq> i) (select_all db)
      = map read_row (others db (status cl) i)"
    unfolding select_all_def others_def read_row_status
    by (rule filter_read_rows[OF sf subset_refl, of "\<lambda>t j. t = status cl \<and> j \<noteq> i"])
  have ids: "map client_id (map read_row (others db (status cl) i))
      = map client_id (others db (status cl) i)"
    by (rule read_rows_ids[OF sf]) (auto simp: others_def)
  have new: "length (filter (\<lambda>c. status c = s) (select_all db)) = length (lane db s)"
    unfolding select_all_def lane_def
    by (simp only: filter_read_rows[OF sf subset_refl, of "\<lambda>t j. t = s"] length_map)
  show ?thesis
    unfolding change_status_def Let_def old new
    by (simp only: rerank_ids_cong[OF ids])
qed

lemma change_status_moved:
  assumes "unique_ids db" and sf: "safe_ids db"
  shows "change_status db (select_all db) (read_row cl) i s = map (moved db cl i s) db"
proof -
  have notin: "i \<notin> client_id ` set (others db (status cl) i)"
    by (auto simp: others_def)
  have "change_status db (select_all db) (read_row cl) i s =
      update_priority (int (length (lane db s)) + 1) i
        (map (assign (others db (status cl) i) 0) (update_status s i db))"
    unfolding change_status_unfold[OF sf]
    by (simp only: rerank_assign[OF others_distinct[OF assms(1)]])
  also have "\<dots> = map (moved db cl i s) db"
    unfolding update_priority_def update_status_def map_map comp_def moved_def
    by (rule map_cong[OF refl]) (rule moved_pointwise[OF notin])
  finally show ?thesis .
qed

lemma sorted_ranks: "sorted (map int [a..<b])"
  by (simp add: sorted_map)

lemma contiguous_iff_mset:
  "contiguous xs \<longleftrightarrow> mset (map priority xs) = mset (map int [1..<Suc (length xs)])"
proof
  assume "contiguous xs"
  then have "mset (sort (map priority xs)) = mset (map int [1..<Suc (length xs)])"
    unfolding contiguous_def by (rule arg_cong)
  then show "mset (map priority xs) = mset (map int [1..<Suc (length xs)])"
    by simp
next
  assume "mset (map priority xs) = mset (map int [1..<Suc (length xs)])"
  then have "sort (map priority xs) = map int [1..<Suc (length xs)]"
    by (intro properties_for_sort sorted_ranks) simp
  then show "contiguous xs"
    unfolding contiguous_def .
qed

lemma contiguous_Nil: "contiguous []"
  by (simp add: contiguous_def)

lemma lane_empty: "s \<notin> status ` set db \<Longrightarrow> lane db s = []"
  unfolding lane_def by (auto simp: filter_empty_conv)

lemma rank_invariant_iff: "rank_invariant db \<longleftrightarrow> (\<forall>s. contiguous (lane db s))"
proof
  assume inv: "rank_invariant db"
  show "\<forall>s. contiguous (lane db s)"
  proof
    fix s
    show "contiguous (lane db s)"
    proof (cases "s \<in> status ` set db")
      case True
      with inv show ?thesis by (auto simp: rank_invariant_def)
    next
      case False
      then show ?thesis by (simp add: lane_empty contiguous_Nil)
    qed
  qed
next
  assume "\<forall>s. contiguous (lane db s)"
  then show "rank_invariant db" by (simp add: rank_invariant_def)
qed

lemma lane_map:
  "(\<And>c. c \<in> set db \<Longrightarrow> status (f c) = t \<longleftrightarrow> P c) \<Longrightarrow>
   lane (map f db) t = map f (filter P db)"
  unfolding lane_def by (induction db) simp_all

lemma moved_id [simp]: "client_id (moved db cl i s c) = client_id c"
  by (simp add: moved_def)

lemma moved_status: "status (moved db cl i s c) = (if client_id c = i then s else status c)"
  by (simp add: moved_def)

lemma moved_target:
  "moved db cl i s cl = (if client_id cl = i then cl\<lparr>status := s, priority := int (length (lane db s)) + 1\<rparr>
     else assign (others db (status cl) i) 0 cl)"
  by (simp add: moved_def)

lemma target_unique:
  assumes "unique_ids db" "stored_row db i = Some cl" "c \<in> set db" "client_id c = i"
  shows "c = cl"
  using unique_ids_eq[OF assms(1) assms(3)] stored_row_SomeD[OF assms(2)] assms(4) by simp

lemma moved_other_lane:
  assumes u: "unique_ids db" and c: "c \<in> set db" and ci: "client_id c \<noteq> i"
    and st: "status c \<noteq> status cl"
  shows "moved db cl i s c = c"
proof -
  have "client_id c \<notin> client_id ` set (others db (status cl) i)"
  proof
    assume "client_id c \<in> client_id ` set (others db (status cl) i)"
    then obtain d where d: "d \<in> set db" "status d = status cl" "client_id d = client_id c"
      by (auto simp: others_def)
    with unique_ids_eq[OF u c, of d] st show False by simp
  qed
  with ci show ?thesis by (simp add: moved_def assign_other)
qed

lemma moved_ids: "map client_id (map (moved db cl i s) db') = map client_id db'"
  by simp

lemma ranks_upt: "map (\<lambda>j. int j + 1) [0..<n] = map int [1..<Suc n]"
  by (induction n) simp_all

lemma assign_self_priorities:
  assumes "distinct (map client_id cs)"
  shows "map priority (map (assign cs 0) cs) = map int [1..<Suc (length cs)]"
proof -
  have "map priority (map (assign cs 0) cs) = map (\<lambda>j. int j + 1) [0..<length cs]"
  proof (rule nth_equalityI)
    show "length (map priority (map (assign cs 0) cs)) = length (map (\<lambda>j. int j + 1) [0..<length cs])"
      by simp
  next
    fix j
    assume "j < length (map priority (map (assign cs 0) cs))"
    then have j: "j < length cs" by simp
    with index_of_nth[OF assms j]
    show "map priority (map (assign cs 0) cs) ! j = map (\<lambda>j. int j + 1) [0..<length cs] ! j"
      by (simp add: assign_def)
  qed
  then show ?thesis by (simp only: ranks_upt)
qed

lemma moved_old_lane:
  assumes u: "unique_ids db" and t: "stored_row db i = Some cl" and ne: "s \<noteq> status cl"
  shows "lane (map (moved db cl i s) db) (status cl)
     = map (assign (others db (status cl) i) 0) (others db (status cl) i)"
proof -
  have "lane (map (moved db cl i s) db) (status cl)
      = map (moved db cl i s) (filter (\<lambda>c. status c = status cl \<and> client_id c \<noteq> i) db)"
    using ne by (intro lane_map) (auto simp: moved_status)
  also have "\<dots> = map (moved db cl i s) (others db (status cl) i)"
    by (simp add: others_def)
  also have "\<dots> = map (assign (others db (status cl) i) 0) (others db (status cl) i)"
    by (rule map_cong[OF refl]) (simp add: moved_def others_def)
  finally show ?thesis .
qed

lemma moved_other_lanes:
  assumes u: "unique_ids db" and t: "stored_row db i = Some cl"
    and "t' \<noteq> status cl" "t' \<noteq> s"
  shows "lane (map (moved db cl i s) db) t' = lane db t'"
proof -
  have "lane (map (moved db cl i s) db) t' = map (moved db cl i s) (filter (\<lambda>c. status c = t') db)"
  proof (rule lane_map)
    fix c
    assume c: "c \<in> set db"
    show "status (moved db cl i s c) = t' \<longleftrightarrow> status c = t'"
    proof (cases "client_id c = i")
      case True
      with target_unique[OF u t c] assms(3,4) show ?thesis by (simp add: moved_status)
    next
      case False
      then show ?thesis by (simp add: moved_status)
    qed
  qed
  also have "\<dots> = map (\<lambda>c. c) (filter (\<lambda>c. status c = t') db)"
  proof (rule map_cong[OF refl])
    fix c
    assume "c \<in> set (filter (\<lambda>c. status c = t') db)"
    then have c: "c \<in> set db" "status c = t'" by auto
    with target_unique[OF u t c(1)] assms(3) have "client_id c \<noteq> i" by auto
    with c assms(3) show "moved db cl i s c = c"
      by (intro moved_other_lane[OF u]) auto
  qed
  finally show ?thesis by (simp add: lane_def)
qed

lemma unique_ids_distinct: "unique_ids db \<Longrightarrow> distinct db"
  unfolding unique_ids_def by (simp add: distinct_map)

lemma filter_or_single:
  "distinct xs \<Longrightarrow> x \<in> set xs \<Longrightarrow> \<not> P x \<Longrightarrow>
   mset (filter (\<lambda>c. P c \<or> c = x) xs) = mset (filter P xs) + {#x#}"
proof (induction xs)
  case Nil
  then show ?case by simp
next
  case (Cons a xs)
  show ?case
  proof (cases "a = x")
    case True
    with Cons.prems have "x \<notin> set xs" by simp
    then have "filter (\<lambda>c. P c \<or> c = x) xs = filter P xs"
      by (intro filter_cong) auto
    with True Cons.prems show ?thesis by simp
  next
    case False
    with Cons show ?thesis by simp
  qed
qed

lemma moved_new_lane:
  assumes u: "unique_ids db" and t: "stored_row db i = Some cl" and ne: "s \<noteq> status cl"
  shows "mset (lane (map (moved db cl i s) db) s)
     = mset (lane db s) + {#cl\<lparr>status := s, priority := int (length (lane db s)) + 1\<rparr>#}"
proof -
  note cl = stored_row_SomeD[OF t]
  have "lane (map (moved db cl i s) db) s
      = map (moved db cl i s) (filter (\<lambda>c. status c = s \<or> c = cl) db)"
  proof (rule lane_map)
    fix c
    assume c: "c \<in> set db"
    show "status (moved db cl i s c) = s \<longleftrightarrow> status c = s \<or> c = cl"
    proof (cases "client_id c = i")
      case True
      with target_unique[OF u t c] show ?thesis by (simp add: moved_status)
    next
      case False
      with cl show ?thesis by (auto simp: moved_status)
    qed
  qed
  then have "mset (lane (map (moved db cl i s) db) s)
      = image_mset (moved db cl i s) (mset (filter (\<lambda>c. status c = s) db) + {#cl#})"
    using filter_or_single[OF unique_ids_distinct[OF u], of cl "\<lambda>c. status c = s"] cl ne
    by simp
  also have "\<dots> = image_mset (moved db cl i s) (mset (lane db s)) + {#moved db cl i s cl#}"
    by (simp add: lane_def)
  also have "image_mset (moved db cl i s) (mset (lane db s)) = image_mset (\<lambda>c. c) (mset (lane db s))"
  proof (rule image_mset_cong)
    fix c
    assume "c \<in># mset (lane db s)"
    then have c: "c \<in> set db" "status c = s" by (auto simp: lane_def)
    with target_unique[OF u t c(1)] ne have "client_id c \<noteq> i" by auto
    with c ne show "moved db cl i s c = c"
      by (intro moved_other_lane[OF u]) auto
  qed
  finally have "mset (lane (map (moved db cl i s) db) s)
      = image_mset (\<lambda>c. c) (mset (lane db s)) + {#moved db cl i s cl#}" .
  moreover have "moved db cl i s cl = cl\<lparr>status := s, priority := int (length (lane db s)) + 1\<rparr>"
    using cl by (simp add: moved_def)
  ultimately show ?thesis by simp
qed

lemma moved_select_target:
  assumes t: "stored_row db i = Some cl"
  shows "stored_row (map (moved db cl i s) db) i
     = Some (cl\<lparr>status := s, priority := int (length (lane db s)) + 1\<rparr>)"
  using stored_row_SomeD[OF t] by (simp add: stored_row_map t moved_def)

lemma moved_unique_ids: "unique_ids db \<Longrightarrow> unique_ids (map (moved db cl i s) db)"
  by (simp add: unique_ids_def comp_def)

lemma contiguous_snoc_rank:
  assumes "contiguous xs" and "mset ys = mset xs + {#c#}" and "priority c = int (length xs) + 1"
  shows "contiguous ys"
proof -
  have len: "length ys = Suc (length xs)"
    using assms(2) by (metis mset_eq_length length_Cons mset.simps(2) add_mset_add_single)
  have "mset (map priority ys) = image_mset priority (mset ys)"
    by simp
  also have "\<dots> = image_mset priority (mset xs + {#c#})"
    by (simp only: assms(2))
  also have "\<dots> = mset (map int [1..<Suc (length xs)]) + {#int (length xs) + 1#}"
    using assms(1,3) by (simp add: contiguous_iff_mset)
  also have "\<dots> = mset (map int [1..<Suc (length ys)])"
    by (simp add: len)
  finally show ?thesis by (simp add: contiguous_iff_mset)
qed

lemma swimlane_mset: "mset (swimlane db s i) = mset (others db s i)"
  unfolding swimlane_def lane_def others_def
  by (simp add: filter_filter_mset)

lemma swimlane_length: "length (swimlane db s i) = length (others db s i)"
  using swimlane_mset by (rule mset_eq_length)

lemma swimlane_set: "set (swimlane db s i) = set (others db s i)"
  using swimlane_mset by (rule mset_eq_setD)

lemma swimlane_distinct: "unique_ids db \<Longrightarrow> distinct (map client_id (swimlane db s i))"
proof -
  assume "unique_ids db"
  then have d: "distinct (map client_id (others db s i))" by (rule others_distinct)
  have "mset (map client_id (swimlane db s i)) = mset (map client_id (others db s i))"
    by (simp add: swimlane_mset)
  from mset_eq_imp_distinct_iff[OF this] d show ?thesis by (rule iffD2)
qed

lemma splice_in_range:
  "1 \<le> p \<Longrightarrow> p \<le> int (length xs) + 1 \<Longrightarrow>
   splice (p - 1) x xs = take (nat (p - 1)) xs @ x # drop (nat (p - 1)) xs"
  by (simp add: splice_def Let_def min_def)

lemma new_sequence_mset: "mset (new_sequence db cl i s p) = mset (others db s i) + {#cl#}"
proof -
  have "mset (take (nat (p - 1)) (swimlane db s i)) + mset (drop (nat (p - 1)) (swimlane db s i))
      = mset (swimlane db s i)"
    by (simp flip: mset_append)
  then show ?thesis by (simp add: new_sequence_def swimlane_mset)
qed

lemma lane_mset_target:
  assumes u: "unique_ids db" and t: "stored_row db i = Some cl" and s: "status cl = s"
  shows "mset (lane db s) = mset (others db s i) + {#cl#}"
proof -
  note cl = stored_row_SomeD[OF t]
  have "filter (\<lambda>c. status c = s) db
      = filter (\<lambda>c. (status c = s \<and> client_id c \<noteq> i) \<or> c = cl) db"
  proof (rule filter_cong[OF refl])
    fix c
    assume c: "c \<in> set db"
    show "(status c = s) = ((status c = s \<and> client_id c \<noteq> i) \<or> c = cl)"
      using target_unique[OF u t c] s by auto
  qed
  then show ?thesis
    using filter_or_single[OF unique_ids_distinct[OF u], of cl "\<lambda>c. status c = s \<and> client_id c \<noteq> i"] cl
    by (simp add: lane_def others_def)
qed

lemma new_sequence_ids:
  assumes u: "unique_ids db" and t: "stored_row db i = Some cl'" and s: "status cl' = s"
    and i: "client_id cl = i"
  shows "mset (map client_id (new_sequence db cl i s p)) = mset (map client_id (lane db s))"
proof -
  have "mset (map client_id (new_sequence db cl i s p))
      = image_mset client_id (mset (others db s i) + {#cl#})"
    by (simp add: new_sequence_mset)
  also have "\<dots> = image_mset client_id (mset (others db s i) + {#cl'#})"
    using i stored_row_SomeD[OF t] by simp
  also have "\<dots> = mset (map client_id (lane db s))"
    by (simp add: lane_mset_target[OF u t s])
  finally show ?thesis .
qed

lemma new_sequence_distinct:
  assumes u: "unique_ids db" and t: "stored_row db i = Some cl'" and s: "status cl' = s"
    and i: "client_id cl = i"
  shows "distinct (map client_id (new_sequence db cl i s p))"
proof -
  have "distinct (map client_id (lane db s))"
    using u unfolding unique_ids_def lane_def by (simp add: distinct_map_filter)
  with mset_eq_imp_distinct_iff[OF new_sequence_ids[OF assms]] show ?thesis
    by (rule iffD2)
qed

lemma assign_priority:
  "client_id c \<in> client_id ` set cs \<Longrightarrow> priority (assign cs 0 c) = rank_in cs (client_id c)"
  by (auto simp: assign_def rank_in_def index_of_None_iff split: option.splits)

lemma assign_priorities:
  assumes "client_id ` set xs \<subseteq> client_id ` set cs"
  shows "map priority (map (assign cs 0) xs) = map (rank_in cs) (map client_id xs)"
  unfolding map_map comp_def
  by (rule map_cong[OF refl]) (use assms in \<open>auto intro!: assign_priority\<close>)

lemma reranked_priorities:
  assumes d: "distinct (map client_id cs)"
    and m: "mset (map client_id xs) = mset (map client_id cs)"
  shows "mset (map priority (map (assign cs 0) xs)) = mset (map int [1..<Suc (length xs)])"
proof -
  have sets: "client_id ` set xs = client_id ` set cs"
    using mset_eq_setD[OF m] by simp
  have len: "length xs = length cs"
    using mset_eq_length[OF m] by simp
  have "mset (map priority (map (assign cs 0) xs)) = image_mset (rank_in cs) (mset (map client_id xs))"
    using sets by (simp only: assign_priorities[OF equalityD1] mset_map)
  also have "\<dots> = image_mset (rank_in cs) (mset (map client_id cs))"
    by (simp only: m)
  also have "\<dots> = mset (map (rank_in cs) (map client_id cs))"
    by (simp only: mset_map)
  also have "\<dots> = mset (map priority (map (assign cs 0) cs))"
    by (simp only: assign_priorities[OF subset_refl])
  also have "\<dots> = mset (map int [1..<Suc (length xs)])"
    by (simp only: assign_self_priorities[OF d] len)
  finally show ?thesis .
qed

lemma lane_assign: "lane (map (assign cs k) db) t = map (assign cs k) (lane db t)"
  unfolding lane_def by (rule lane_map[unfolded lane_def]) simp

lemma assign_other_lane:
  assumes u: "unique_ids db" and ids: "client_id ` set cs = client_id ` set (lane db s)"
    and ne: "t \<noteq> s"
  shows "map (assign cs k) (lane db t) = lane db t"
proof -
  have "map (assign cs k) (lane db t) = map (\<lambda>c. c) (lane db t)"
  proof (rule map_cong[OF refl])
    fix c
    assume "c \<in> set (lane db t)"
    then have c: "c \<in> set db" "status c = t" by (auto simp: lane_def)
    have "client_id c \<notin> client_id ` set (lane db s)"
    proof
      assume "client_id c \<in> client_id ` set (lane db s)"
      then obtain d where "d \<in> set db" "status d = s" "client_id d = client_id c"
        by (auto simp: lane_def)
      with unique_ids_eq[OF u c(1), of d] c(2) ne show False by simp
    qed
    then show "assign cs k c = c"
      by (simp add: assign_other ids)
  qed
  then show ?thesis by simp
qed

lemma put_client_nan:
  "put_client db None st pr = (Response 400 (MessageObj ''Invalid id provided.'' ''Id can only be an integer.''), db)"
  by (simp add: put_client_def validateId_def parseInt_def)

lemma put_client_parsed_not_found:
  "stored_row db (to_double i) = None \<Longrightarrow>
   put_client db (Some i) st pr
     = (Response 400 (MessageObj ''Invalid id provided.'' ''Cannot find client with that id.''), db)"
  by (simp add: put_client_def validateId_def parseInt_def select_by_id_def stored_row_def)


lemma put_client_parsed_found:
  assumes sf: "safe_ids db" and t: "stored_row db (to_double i) = Some cl"
  shows "put_client db (Some i) st pr =
     (case pr of None \<Rightarrow> send_clients (after_status db cl (to_double i) st)
      | Some p \<Rightarrow>
          if p \<noteq> 0 then change_priority (after_status db cl (to_double i) st) (read_row cl) (to_double i) st p
          else send_clients (after_status db cl (to_double i) st))"
proof -
  have f: "find (\<lambda>c. client_id c = to_double i) db = Some cl"
    using t by (simp add: stored_row_def)
  have g: "find (\<lambda>c. client_id c = to_double i) (select_all db) = Some (read_row cl)"
    unfolding select_all_def by (simp only: find_read_rows[OF sf] f option.map)
  show ?thesis
    by (simp add: put_client_def validateId_def parseInt_def select_by_id_def f g
        after_status_def lane_change_requested_def truthy_status_def truthy_priority_def Let_def
        split: option.splits)
qed

lemma stored_row_safe:
  "safe_ids db \<Longrightarrow> stored_row db i = Some cl \<Longrightarrow> safe_integer i"
  using stored_row_SomeD[of db i cl] by (auto simp: safe_ids_iff)

lemma put_client_found:
  assumes sf: "safe_ids db" and t: "stored_row db i = Some cl"
  shows "put_client db (Some i) st pr =
     (case pr of None \<Rightarrow> send_clients (after_status db cl i st)
      | Some p \<Rightarrow> if p \<noteq> 0 then change_priority (after_status db cl i st) (read_row cl) i st p
                  else send_clients (after_status db cl i st))"
proof -
  have i: "to_double i = i"
    by (rule to_double_safe[OF stored_row_safe[OF sf t]])
  from t have "stored_row db (to_double i) = Some cl" by (simp only: i)
  from put_client_parsed_found[OF sf this, of st pr] show ?thesis by (simp only: i)
qed

lemma put_client_parsed:
  assumes sf: "safe_ids db" and t: "stored_row db (to_double i) = Some cl"
  shows "put_client db (Some i) st pr = put_client db (Some (to_double i)) st pr"
  by (simp only: put_client_parsed_found[OF sf t] put_client_found[OF sf t])

lemma swimlane_rows: "set (swimlane db s i) \<subseteq> set db"
  by (auto simp: swimlane_def lane_def)

lemma change_priority_swimlane:
  assumes sf: "safe_ids db" and cl: "safe_integer (client_id cl)"
  shows "change_priority db (read_row cl) i st p =
     (if p < 1 \<or> p > int (length (others db (status_or st (status cl)) i)) + 1 then
        (Response 400 (MessageObj ''Invalid priority.''
           (''Priority must be between 1 and ''
              @ string_of_nat (length (others db (status_or st (status cl)) i) + 1) @ ''.'')), db)
      else send_clients (rerank (new_sequence db cl i (status_or st (status cl)) p) 0 db))"
proof -
  let ?s = "status_or st (status cl)"
  let ?sw = "swimlane db ?s i"
  have sw: "filter (\<lambda>c. client_id c \<noteq> i) (select_by_status_ordered db ?s) = map read_row ?sw"
    unfolding select_by_status_ordered_def swimlane_def lane_def
    by (rule filter_read_rows[OF sf, of _ "\<lambda>t j. j \<noteq> i"]) auto
  have unfold: "change_priority db (read_row cl) i st p =
     (if p < 1 \<or> p > int (length (map read_row ?sw)) + 1 then
        (Response 400 (MessageObj ''Invalid priority.''
           (''Priority must be between 1 and ''
              @ string_of_nat (length (map read_row ?sw) + 1) @ ''.'')), db)
      else send_clients (rerank (splice (p - 1) (read_row cl) (map read_row ?sw)) 0 db))"
    unfolding change_priority_def Let_def read_row_status sw by (rule refl)
  have e: "map client_id (map read_row ?sw) = map client_id ?sw"
    by (rule read_rows_ids[OF sf swimlane_rows])
  have ec: "client_id (read_row cl) = client_id cl"
    by (simp only: read_row_id to_double_safe[OF cl])
  have ids: "map client_id (splice (p - 1) (read_row cl) (map read_row ?sw))
      = map client_id (new_sequence db cl i ?s p)"
    if r: "1 \<le> p" "p \<le> int (length ?sw) + 1"
  proof -
    from r have "p \<le> int (length (map read_row ?sw)) + 1" by simp
    from splice_in_range[OF r(1) this]
    have "map client_id (splice (p - 1) (read_row cl) (map read_row ?sw))
        = take (nat (p - 1)) (map client_id (map read_row ?sw))
          @ client_id (read_row cl) # drop (nat (p - 1)) (map client_id (map read_row ?sw))"
      by (simp only: map_append list.map take_map drop_map)
    also have "\<dots> = map client_id (new_sequence db cl i ?s p)"
      by (simp only: e ec new_sequence_def map_append list.map take_map drop_map)
    finally show ?thesis .
  qed
  show ?thesis
  proof (cases "p < 1 \<or> p > int (length ?sw) + 1")
    case True
    then show ?thesis by (simp add: unfold swimlane_length)
  next
    case False
    then have r: "1 \<le> p" "p \<le> int (length ?sw) + 1" by simp_all
    from False show ?thesis
      by (simp add: unfold swimlane_length rerank_ids_cong[OF ids[OF r]])
  qed
qed

lemma status_or_lane_change:
  "lane_change_requested st cl \<Longrightarrow> st = Some (status_or st (status cl))"
  by (auto simp: lane_change_requested_def status_or_def split: option.splits)

lemma status_or_no_change:
  "\<not> lane_change_requested st cl \<Longrightarrow> status_or st (status cl) = status cl"
  by (auto simp: lane_change_requested_def status_or_def split: option.splits)

lemma after_status_no_change: "\<not> lane_change_requested st cl \<Longrightarrow> after_status db cl i st = db"
  by (cases st) (simp_all add: after_status_def)

lemma after_status_moved:
  assumes "unique_ids db" "safe_ids db" "lane_change_requested st cl"
  shows "after_status db cl i st = map (moved db cl i (status_or st (status cl))) db"
proof -
  from status_or_lane_change[OF assms(3)] obtain s where s: "st = Some s" "status_or st (status cl) = s"
    by simp
  with assms show ?thesis
    by (simp add: after_status_def change_status_moved)
qed

lemma after_status_target:
  assumes u: "unique_ids db" and sf: "safe_ids db" and t: "stored_row db i = Some cl"
  shows "\<exists>cl'. stored_row (after_status db cl i st) i = Some cl'
           \<and> status cl' = status_or st (status cl) \<and> client_id cl' = i"
proof (cases "lane_change_requested st cl")
  case True
  show ?thesis
    using stored_row_SomeD[OF t]
    by (simp add: after_status_moved[OF u sf True] moved_select_target[OF t])
next
  case False
  then show ?thesis
    using stored_row_SomeD[OF t] t
    by (simp add: after_status_no_change status_or_no_change)
qed

lemma after_status_ids:
  "unique_ids db \<Longrightarrow> safe_ids db \<Longrightarrow>
   map client_id (after_status db cl i st) = map client_id db"
  by (cases "lane_change_requested st cl") (simp_all add: after_status_moved after_status_no_change)

lemma after_status_unique:
  "unique_ids db \<Longrightarrow> safe_ids db \<Longrightarrow> unique_ids (after_status db cl i st)"
  by (simp add: unique_ids_def[of "after_status db cl i st"] after_status_ids)
     (simp add: unique_ids_def)

lemma after_status_safe:
  "unique_ids db \<Longrightarrow> safe_ids db \<Longrightarrow> safe_ids (after_status db cl i st)"
  by (simp add: safe_ids_ids[OF after_status_ids])

lemma contiguous_ranks: "map priority xs = map int [1..<Suc (length xs)] \<Longrightarrow> contiguous xs"
  by (simp only: contiguous_iff_mset)

lemma after_status_invariant:
  assumes u: "unique_ids db" and sf: "safe_ids db" and t: "stored_row db i = Some cl"
    and inv: "rank_invariant db"
  shows "rank_invariant (after_status db cl i st)"
proof (cases "lane_change_requested st cl")
  case False
  with inv show ?thesis by (simp add: after_status_no_change)
next
  case True
  define s where "s = status_or st (status cl)"
  have ne: "s \<noteq> status cl"
    using True status_or_lane_change[OF True]
    by (auto simp: s_def lane_change_requested_def)
  have db1: "after_status db cl i st = map (moved db cl i s) db"
    unfolding s_def by (rule after_status_moved[OF u sf True])
  have "contiguous (lane (map (moved db cl i s) db) t')" for t'
  proof -
    consider "t' = status cl" | "t' = s" | "t' \<noteq> status cl" "t' \<noteq> s" by blast
    then show ?thesis
    proof cases
      case 1
      have "map priority (lane (map (moved db cl i s) db) (status cl))
          = map int [1..<Suc (length (lane (map (moved db cl i s) db) (status cl)))]"
        by (simp only: moved_old_lane[OF u t ne] assign_self_priorities[OF others_distinct[OF u]]
            length_map)
      with 1 show ?thesis by (simp only: contiguous_ranks)
    next
      case 2
      have "contiguous (lane db s)"
        using inv by (simp add: rank_invariant_iff)
      then have "contiguous (lane (map (moved db cl i s) db) s)"
        by (rule contiguous_snoc_rank[OF _ moved_new_lane[OF u t ne]]) simp
      with 2 show ?thesis by simp
    next
      case 3
      with inv show ?thesis
        by (simp add: moved_other_lanes[OF u t] rank_invariant_iff)
    qed
  qed
  then show ?thesis by (simp add: db1 rank_invariant_iff)
qed

lemma reorder_assign:
  assumes u: "unique_ids db" and t: "stored_row db i = Some cl'" and s: "status cl' = s"
    and i: "client_id cl = i"
  shows "rerank (new_sequence db cl i s p) 0 db = map (assign (new_sequence db cl i s p) 0) db"
  by (rule rerank_assign[OF new_sequence_distinct[OF assms]])

lemma reorder_invariant:
  assumes u: "unique_ids db" and t: "stored_row db i = Some cl'" and s: "status cl' = s"
    and i: "client_id cl = i" and inv: "rank_invariant db"
  shows "rank_invariant (map (assign (new_sequence db cl i s p) 0) db)"
proof -
  let ?cs = "new_sequence db cl i s p"
  note ids = new_sequence_ids[OF u t s i, of p]
  have "contiguous (lane (map (assign ?cs 0) db) t')" for t'
  proof (cases "t' = s")
    case True
    have "mset (map priority (map (assign ?cs 0) (lane db s)))
        = mset (map int [1..<Suc (length (lane db s))])"
      by (rule reranked_priorities[OF new_sequence_distinct[OF u t s i] ids[symmetric]])
    then show ?thesis
      by (simp add: True lane_assign contiguous_iff_mset)
  next
    case False
    have "client_id ` set ?cs = client_id ` set (lane db s)"
      using mset_eq_setD[OF ids] by simp
    from assign_other_lane[OF u this False] inv show ?thesis
      by (simp add: lane_assign rank_invariant_iff)
  qed
  then show ?thesis by (simp add: rank_invariant_iff)
qed

lemma put_client_db_cases:
  assumes u: "unique_ids db" and sf: "safe_ids db" and t: "stored_row db i = Some cl"
  shows "snd (put_client db (Some i) st pr) = after_status db cl i st
       \<or> (\<exists>p. snd (put_client db (Some i) st pr)
             = map (assign (new_sequence (after_status db cl i st) cl i (status_or st (status cl)) p) 0)
                 (after_status db cl i st))"
proof -
  from after_status_target[OF u sf t] obtain cl' where
    cl': "stored_row (after_status db cl i st) i = Some cl'" "status cl' = status_or st (status cl)"
    by blast
  note i = conjunct2[OF stored_row_SomeD[OF t]]
  have cs: "safe_integer (client_id cl)"
    using stored_row_safe[OF sf t] by (simp only: i)
  note r = reorder_assign[OF after_status_unique[OF u sf] cl' i]
  note c = change_priority_swimlane[OF after_status_safe[OF u sf] cs]
  show ?thesis
    by (auto simp: put_client_found[OF sf t] c send_clients_def r split: option.splits)
qed

lemma put_client_invariant:
  assumes u: "unique_ids db" and sf: "safe_ids db" and inv: "rank_invariant db"
  shows "rank_invariant (snd (put_client db id_param st pr))"
proof (cases id_param)
  case None
  with inv show ?thesis by (simp add: put_client_nan)
next
  case (Some i)
  show ?thesis
  proof (cases "stored_row db (to_double i)")
    case None
    with inv Some show ?thesis by (simp add: put_client_parsed_not_found)
  next
    case (Some cl)
    note t = this
    let ?i = "to_double i"
    from after_status_target[OF u sf t] obtain cl' where
      cl': "stored_row (after_status db cl ?i st) ?i = Some cl'" "status cl' = status_or st (status cl)"
      by blast
    note inv1 = after_status_invariant[OF u sf t inv, of st]
    note inv2 = reorder_invariant[OF after_status_unique[OF u sf] cl'
        conjunct2[OF stored_row_SomeD[OF t]] inv1]
    from put_client_db_cases[OF u sf t, of st pr] inv1 inv2
    have "rank_invariant (snd (put_client db (Some ?i) st pr))" by auto
    with \<open>id_param = Some i\<close> show ?thesis
      by (simp only: put_client_parsed[OF sf t])
  qed
qed

subsection \<open>The status change and the reorder, row by row\<close>

lemma lane_length_target:
  assumes "unique_ids db" "stored_row db i = Some cl"
  shows "length (lane db (status cl)) = Suc (length (others db (status cl) i))"
proof -
  have "size (mset (lane db (status cl))) = size (mset (others db (status cl) i) + {#cl#})"
    by (simp only: lane_mset_target[OF assms refl])
  then show ?thesis by simp
qed

lemma put_client_move_only:
  assumes u: "unique_ids db" and sf: "safe_ids db" and t: "stored_row db i = Some cl"
    and s: "s \<noteq> []" "s \<noteq> status cl"
  shows "put_client db (Some i) (Some s) None = send_clients (map (moved db cl i s) db)"
proof -
  have l: "lane_change_requested (Some s) cl"
    using s by (simp add: lane_change_requested_def)
  have "status_or (Some s) (status cl) = s"
    using s by (simp add: status_or_def)
  with after_status_moved[OF u sf l, of i] show ?thesis
    by (simp add: put_client_found[OF sf t])
qed

lemma assign_other_row:
  assumes u: "unique_ids db" and ids: "client_id ` set cs = client_id ` set (lane db s)"
    and c: "c \<in> set db" and ne: "status c \<noteq> s"
  shows "assign cs k c = c"
proof -
  have "client_id c \<notin> client_id ` set (lane db s)"
  proof
    assume "client_id c \<in> client_id ` set (lane db s)"
    then obtain d where "d \<in> set db" "status d = s" "client_id d = client_id c"
      by (auto simp: lane_def)
    with unique_ids_eq[OF u c, of d] ne show False by simp
  qed
  then show ?thesis by (simp add: assign_other ids)
qed

lemma assign_ids_cong: "map client_id cs = map client_id ds \<Longrightarrow> assign cs k = assign ds k"
  by (rule ext) (simp add: assign_def index_of_cong[of cs ds])

lemma after_status_other_lanes:
  assumes u: "unique_ids db" and sf: "safe_ids db" and t: "stored_row db i = Some cl"
    and ne: "t' \<noteq> status cl" "t' \<noteq> status_or st (status cl)"
  shows "lane (after_status db cl i st) t' = lane db t'"
proof (cases "lane_change_requested st cl")
  case True
  show ?thesis
    by (simp only: after_status_moved[OF u sf True] moved_other_lanes[OF u t ne])
next
  case False
  then show ?thesis by (simp add: after_status_no_change)
qed

lemma after_status_nth:
  assumes u: "unique_ids db" and sf: "safe_ids db" and t: "stored_row db i = Some cl"
    and k: "k < length db" and ne: "status (db ! k) \<noteq> status cl"
  shows "after_status db cl i st ! k = db ! k"
proof (cases "lane_change_requested st cl")
  case True
  have c: "db ! k \<in> set db" using k by simp
  with target_unique[OF u t c] ne have "client_id (db ! k) \<noteq> i" by auto
  from moved_other_lane[OF u c this ne] k show ?thesis
    by (simp add: after_status_moved[OF u sf True])
next
  case False
  then show ?thesis by (simp add: after_status_no_change)
qed

lemma after_status_length:
  "unique_ids db \<Longrightarrow> safe_ids db \<Longrightarrow> length (after_status db cl i st) = length db"
  using after_status_ids[of db cl i st] by (metis length_map)

lemma put_client_frame:
  assumes u: "unique_ids db" and sf: "safe_ids db" and t: "stored_row db i = Some cl"
    and db': "db' = snd (put_client db (Some i) st pr)"
  shows "map client_id db' = map client_id db"
    and "t' \<noteq> status cl \<Longrightarrow> t' \<noteq> status_or st (status cl) \<Longrightarrow> lane db' t' = lane db t'"
    and "k < length db \<Longrightarrow> status (db ! k) \<noteq> status cl \<Longrightarrow>
         status (db ! k) \<noteq> status_or st (status cl) \<Longrightarrow> db' ! k = db ! k"
proof -
  let ?db1 = "after_status db cl i st"
  let ?s = "status_or st (status cl)"
  from after_status_target[OF u sf t] obtain cl' where
    cl': "stored_row ?db1 i = Some cl'" "status cl' = ?s"
    by blast
  note u1 = after_status_unique[OF u sf, of cl i st]
  note i = conjunct2[OF stored_row_SomeD[OF t]]
  have ids: "client_id ` set (new_sequence ?db1 cl i ?s p) = client_id ` set (lane ?db1 ?s)" for p
    using mset_eq_setD[OF new_sequence_ids[OF u1 cl' i, of p]] by simp
  consider (same) "db' = ?db1"
    | (reordered) p where "db' = map (assign (new_sequence ?db1 cl i ?s p) 0) ?db1"
    using put_client_db_cases[OF u sf t, of st pr] db' by auto
  note cases = this
  show "map client_id db' = map client_id db"
    using cases by cases (simp_all add: after_status_ids[OF u sf] comp_def)
  show "lane db' t' = lane db t'" if ne: "t' \<noteq> status cl" "t' \<noteq> ?s"
    using cases
  proof cases
    case same
    then show ?thesis by (simp only: after_status_other_lanes[OF u sf t ne])
  next
    case (reordered p)
    then have "lane db' t' = map (assign (new_sequence ?db1 cl i ?s p) 0) (lane ?db1 t')"
      by (simp only: lane_assign)
    also have "\<dots> = lane ?db1 t'"
      by (rule assign_other_lane[OF u1 ids ne(2)])
    also have "\<dots> = lane db t'"
      by (rule after_status_other_lanes[OF u sf t ne])
    finally show ?thesis .
  qed
  show "db' ! k = db ! k"
    if k: "k < length db" and ne: "status (db ! k) \<noteq> status cl" "status (db ! k) \<noteq> ?s"
    using cases
  proof cases
    case same
    then show ?thesis by (simp only: after_status_nth[OF u sf t k ne(1)])
  next
    case (reordered p)
    note n = after_status_nth[OF u sf t k ne(1), of st]
    have k1: "k < length ?db1" using k by (simp add: after_status_length[OF u sf])
    then have "?db1 ! k \<in> set ?db1" by simp
    then have "db ! k \<in> set ?db1" by (simp only: n)
    from assign_other_row[OF u1 ids this ne(2)] k1 show ?thesis
      by (simp add: reordered n)
  qed
qed

lemma swimlane_sorted: "sorted (map priority (swimlane db s i))"
  unfolding swimlane_def
  by (rule sorted_filter) simp

lemma reordered_row:
  assumes u: "unique_ids db" and d: "distinct (map client_id cs)"
    and k: "k < length cs" and c: "cs ! k \<in> set db"
  shows "stored_row (map (assign cs 0) db) (client_id (cs ! k))
     = Some ((cs ! k)\<lparr>priority := int k + 1\<rparr>)"
proof -
  have "stored_row (map (assign cs 0) db) (client_id (cs ! k))
      = map_option (assign cs 0) (stored_row db (client_id (cs ! k)))"
    by (rule stored_row_map) simp
  also have "\<dots> = Some (assign cs 0 (cs ! k))"
    by (simp only: stored_row_unique[OF u c] option.map)
  also have "assign cs 0 (cs ! k) = (cs ! k)\<lparr>priority := int k + 1\<rparr>"
    by (simp add: assign_def index_of_nth[OF d k])
  finally show ?thesis .
qed

text \<open>
  The reorder in the effective lane, on the database \<open>db1\<close> that the first \<open>if\<close> of the
  handler leaves: the sequence holds the target as \<open>db1\<close> stores it.
\<close>

lemma reorder_general:
  assumes u: "unique_ids db" and sf: "safe_ids db" and t: "stored_row db i = Some cl"
    and db1: "db1 = after_status db cl i st"
    and t1: "stored_row db1 i = Some tgt"
    and eff: "eff = status_or st (status cl)"
    and p: "1 \<le> p" "p \<le> int (length (swimlane db1 eff i)) + 1"
    and new: "new = new_sequence db1 tgt i eff p"
  shows "put_client db (Some i) st (Some p) = send_clients (map (assign new 0) db1)"
    and "status tgt = eff"
    and "mset new = mset (lane db1 eff)"
    and "k < length new \<Longrightarrow>
         stored_row (map (assign new 0) db1) (client_id (new ! k))
           = Some ((new ! k)\<lparr>priority := int k + 1\<rparr>)"
proof -
  note i = conjunct2[OF stored_row_SomeD[OF t]]
  note i1 = conjunct2[OF stored_row_SomeD[OF t1]]
  have u1: "unique_ids db1" unfolding db1 by (rule after_status_unique[OF u sf])
  have sf1: "safe_ids db1" unfolding db1 by (rule after_status_safe[OF u sf])
  have cs: "safe_integer (client_id cl)"
    using stored_row_safe[OF sf t] by (simp only: i)
  from after_status_target[OF u sf t, of st] t1
  show st: "status tgt = eff" by (simp add: db1 eff)
  have ids: "map client_id (new_sequence db1 cl i eff p) = map client_id new"
    by (simp add: new new_sequence_def i i1)
  have d: "distinct (map client_id new)"
    unfolding new by (rule new_sequence_distinct[OF u1 t1 st i1])
  from p have p0: "p \<noteq> 0" by simp
  have "put_client db (Some i) st (Some p)
      = send_clients (rerank (new_sequence db1 cl i eff p) 0 db1)"
    using p p0
    by (simp add: put_client_found[OF sf t] change_priority_swimlane[OF sf1 cs]
        db1[symmetric] eff[symmetric] swimlane_length)
  also have "rerank (new_sequence db1 cl i eff p) 0 db1 = rerank new 0 db1"
    by (rule rerank_ids_cong[OF ids])
  also have "\<dots> = map (assign new 0) db1"
    by (rule rerank_assign[OF d])
  finally show "put_client db (Some i) st (Some p) = send_clients (map (assign new 0) db1)" .
  show rows: "mset new = mset (lane db1 eff)"
    by (simp only: new new_sequence_mset lane_mset_target[OF u1 t1 st])
  show "stored_row (map (assign new 0) db1) (client_id (new ! k))
      = Some ((new ! k)\<lparr>priority := int k + 1\<rparr>)" if k: "k < length new"
  proof -
    from k have "new ! k \<in> set new" by simp
    then have "new ! k \<in> set (lane db1 eff)"
      by (simp only: mset_eq_setD[OF rows])
    then have "new ! k \<in> set db1" by (simp add: lane_def)
    from reordered_row[OF u1 d k this] show ?thesis .
  qed
qed

lemma splice_ids:
  "client_id c = client_id d \<Longrightarrow> map client_id (splice k c xs) = map client_id (splice k d xs)"
  by (simp add: splice_def Let_def)

lemma change_priority_cong:
  assumes "client_id c = client_id d" and "status_or st (status c) = status_or st' (status d)"
  shows "change_priority db c i st p = change_priority db d i st' p"
  unfolding change_priority_def Let_def assms(2)
  by (simp only: rerank_ids_cong[OF splice_ids[OF assms(1)]])

lemma combined_is_sequence:
  assumes u: "unique_ids db" and sf: "safe_ids db" and t: "stored_row db i = Some cl"
    and s: "s \<noteq> []" "s \<noteq> status cl"
  shows "put_client db (Some i) (Some s) (Some p)
     = put_client (snd (put_client db (Some i) (Some s) None)) (Some i) None (Some p)"
proof -
  let ?db1 = "map (moved db cl i s) db"
  let ?cl1 = "cl\<lparr>status := s, priority := int (length (lane db s)) + 1\<rparr>"
  have l: "lane_change_requested (Some s) cl"
    using s by (simp add: lane_change_requested_def)
  have so: "status_or (Some s) (status cl) = s"
    using s by (simp add: status_or_def)
  have a: "after_status db cl i (Some s) = ?db1"
    using after_status_moved[OF u sf l, of i] by (simp only: so)
  have sf1: "safe_ids ?db1"
    using after_status_safe[OF u sf, of cl i "Some s"] by (simp only: a)
  have t1: "stored_row ?db1 i = Some ?cl1"
    by (rule moved_select_target[OF t])
  have n: "\<not> lane_change_requested None ?cl1"
    by (simp add: lane_change_requested_def)
  have first: "snd (put_client db (Some i) (Some s) None) = ?db1"
    by (simp add: put_client_move_only[OF u sf t s] send_clients_def)
  have c: "change_priority ?db1 (read_row cl) i (Some s) p
      = change_priority ?db1 (read_row ?cl1) i None p"
    using s by (intro change_priority_cong) (simp_all add: status_or_def read_row_def)
  have lhs: "put_client db (Some i) (Some s) (Some p)
      = (if p \<noteq> 0 then change_priority ?db1 (read_row cl) i (Some s) p else send_clients ?db1)"
    by (simp add: put_client_found[OF sf t] a)
  have rhs: "put_client ?db1 (Some i) None (Some p)
      = (if p \<noteq> 0 then change_priority ?db1 (read_row ?cl1) i None p else send_clients ?db1)"
    by (simp add: put_client_found[OF sf1 t1] after_status_no_change[OF n])
  show ?thesis
    by (simp only: first lhs rhs c)
qed

lemma sorted_ranks_unique:
  assumes "contiguous xs" and "mset ys = mset xs" and "sorted (map priority ys)"
  shows "map priority ys = map int [1..<Suc (length ys)]"
proof -
  have "mset (map priority ys) = mset (map priority xs)"
    by (simp add: assms(2))
  from properties_for_sort[OF this assms(3)] assms(1) mset_eq_length[OF assms(2)]
  show ?thesis by (simp add: contiguous_def)
qed


text \<open>The rows of the destination lane are untouched by the status change.\<close>

lemma others_moved:
  assumes u: "unique_ids db" and t: "stored_row db i = Some cl" and ne: "s \<noteq> status cl"
  shows "others (map (moved db cl i s) db) s i = lane db s"
proof -
  have "others (map (moved db cl i s) db) s i
      = map (moved db cl i s)
          (filter ((\<lambda>c. status c = s \<and> client_id c \<noteq> i) \<circ> moved db cl i s) db)"
    unfolding others_def by (rule filter_map)
  also have "filter ((\<lambda>c. status c = s \<and> client_id c \<noteq> i) \<circ> moved db cl i s) db
      = filter (\<lambda>c. status c = s) db"
  proof (rule filter_cong[OF refl])
    fix c
    assume c: "c \<in> set db"
    show "((\<lambda>c. status c = s \<and> client_id c \<noteq> i) \<circ> moved db cl i s) c = (status c = s)"
      using target_unique[OF u t c] ne by (auto simp: moved_status)
  qed
  also have "map (moved db cl i s) (filter (\<lambda>c. status c = s) db)
      = map (\<lambda>c. c) (filter (\<lambda>c. status c = s) db)"
  proof (rule map_cong[OF refl])
    fix c
    assume "c \<in> set (filter (\<lambda>c. status c = s) db)"
    then have c: "c \<in> set db" "status c = s" by auto
    with target_unique[OF u t c(1)] ne have "client_id c \<noteq> i" by auto
    with c ne show "moved db cl i s c = c"
      by (intro moved_other_lane[OF u]) auto
  qed
  finally show ?thesis by (simp add: lane_def)
qed

lemma swimlane_others: "swimlane db s i = sort_key priority (others db s i)"
  unfolding swimlane_def lane_def others_def
  by (simp add: filter_sort conj_commute)


lemma put_client_status_only:
  "safe_ids db \<Longrightarrow> stored_row db i = Some cl \<Longrightarrow>
   snd (put_client db (Some i) st None) = after_status db cl i st"
  by (simp add: put_client_found send_clients_def)


section \<open>The claims\<close>

text \<open>
  C2 as stated fails on the handler, which reads ids as doubles. The stored ids
  \<open>2^53\<close> and \<open>2^53 + 1\<close> are both read as \<open>2^53\<close>: in a lane ranked 1, 2, 3 with the
  ids 5, \<open>2^53\<close>, \<open>2^53 + 1\<close>, moving row 5 to priority 3 writes the priorities 1 and 2
  to the row \<open>2^53\<close> and none to the row \<open>2^53 + 1\<close>; the call succeeds and the lane
  ends with the priorities 3, 2, 3.
\<close>

theorem rank_invariant_unsafe_ids_counterexample:
  "unique_ids [row 5 ''backlog'' 1, row 9007199254740992 ''backlog'' 2,
      row 9007199254740993 ''backlog'' 3]
   \<and> rank_invariant [row 5 ''backlog'' 1, row 9007199254740992 ''backlog'' 2,
      row 9007199254740993 ''backlog'' 3]
   \<and> put_client [row 5 ''backlog'' 1, row 9007199254740992 ''backlog'' 2,
        row 9007199254740993 ''backlog'' 3] (Some 5) None (Some 3)
     = (Response 200 (Clients [row 9007199254740992 ''backlog'' 2, row 5 ''backlog'' 3,
          row 9007199254740992 ''backlog'' 3]),
        [row 5 ''backlog'' 3, row 9007199254740992 ''backlog'' 2,
         row 9007199254740993 ''backlog'' 3])
   \<and> \<not> rank_invariant [row 5 ''backlog'' 3, row 9007199254740992 ''backlog'' 2,
      row 9007199254740993 ''backlog'' 3]"
proof -
  let ?db = "[row 5 ''backlog'' 1, row 9007199254740992 ''backlog'' 2,
      row 9007199254740993 ''backlog'' 3]"
  let ?db' = "[row 5 ''backlog'' 3, row 9007199254740992 ''backlog'' 2,
      row 9007199254740993 ''backlog'' 3]"
  have u: "unique_ids ?db"
    by (simp add: unique_ids_def row_def)
  have inv: "rank_invariant ?db"
    by (simp add: rank_invariant_def contiguous_def lane_def row_def)
  have r: "put_client ?db (Some 5) None (Some 3)
     = (Response 200 (Clients [row 9007199254740992 ''backlog'' 2, row 5 ''backlog'' 3,
          row 9007199254740992 ''backlog'' 3]), ?db')"
    by (simp add: handler_defs)
  have n: "\<not> rank_invariant ?db'"
    by (simp add: rank_invariant_def contiguous_def lane_def row_def)
  show ?thesis
    by (rule conjI[OF u conjI[OF inv conjI[OF r n]]])
qed

text \<open>
  C2, amended. When the ids are unique safe integers (below \<open>2^53\<close> in absolute value)
  and, in every lane, the priorities are exactly 1, ..., N (N the number of rows of the
  lane), then after any successful call of the handler (a lane change, a reorder within
  the lane, both, or neither) the priorities of every lane are again exactly 1, ..., N
  for the lane's new size N.
\<close>

theorem rank_invariant_preserved:
  assumes "unique_ids db" and "safe_ids db" and "rank_invariant db"
    and "code (fst (put_client db id_param st pr)) = 200"
  shows "rank_invariant (snd (put_client db id_param st pr))"
  using assms(1,2,3) by (rule put_client_invariant)

theorem rank_invariant_preserved_witness:
  "unique_ids [row 1 ''backlog'' 1, row 2 ''backlog'' 2, row 3 ''in-progress'' 1,
      row 4 ''complete'' 1, row 5 ''backlog'' 3]
   \<and> safe_ids [row 1 ''backlog'' 1, row 2 ''backlog'' 2, row 3 ''in-progress'' 1,
      row 4 ''complete'' 1, row 5 ''backlog'' 3]
   \<and> rank_invariant [row 1 ''backlog'' 1, row 2 ''backlog'' 2, row 3 ''in-progress'' 1,
      row 4 ''complete'' 1, row 5 ''backlog'' 3]
   \<and> put_client [row 1 ''backlog'' 1, row 2 ''backlog'' 2, row 3 ''in-progress'' 1,
        row 4 ''complete'' 1, row 5 ''backlog'' 3] (Some 1) (Some ''in-progress'') (Some 1)
      = (Response 200 (Clients [row 2 ''backlog'' 1, row 5 ''backlog'' 2, row 4 ''complete'' 1,
           row 1 ''in-progress'' 1, row 3 ''in-progress'' 2]),
         [row 1 ''in-progress'' 1, row 2 ''backlog'' 1, row 3 ''in-progress'' 2,
          row 4 ''complete'' 1, row 5 ''backlog'' 2])
   \<and> rank_invariant (snd (put_client [row 1 ''backlog'' 1, row 2 ''backlog'' 2,
        row 3 ''in-progress'' 1, row 4 ''complete'' 1, row 5 ''backlog'' 3]
        (Some 1) (Some ''in-progress'') (Some 1)))"
proof -
  let ?db = "[row 1 ''backlog'' 1, row 2 ''backlog'' 2, row 3 ''in-progress'' 1,
      row 4 ''complete'' 1, row 5 ''backlog'' 3]"
  have u: "unique_ids ?db"
    by (simp add: unique_ids_def row_def)
  have sf: "safe_ids ?db"
    by (simp add: safe_ids_def safe_integer_def row_def)
  have inv: "rank_invariant ?db"
    by (simp add: rank_invariant_def contiguous_def lane_def row_def)
  have r: "put_client ?db (Some 1) (Some ''in-progress'') (Some 1)
      = (Response 200 (Clients [row 2 ''backlog'' 1, row 5 ''backlog'' 2, row 4 ''complete'' 1,
           row 1 ''in-progress'' 1, row 3 ''in-progress'' 2]),
         [row 1 ''in-progress'' 1, row 2 ''backlog'' 1, row 3 ''in-progress'' 2,
          row 4 ''complete'' 1, row 5 ''backlog'' 2])"
    by (simp add: handler_defs)
  then have ok: "code (fst (put_client ?db (Some 1) (Some ''in-progress'') (Some 1))) = 200"
    by simp
  from rank_invariant_preserved[OF u sf inv ok] u sf inv r show ?thesis
    by blast
qed

text \<open>
  C9 as stated fails on the handler, which reads ids as doubles. With the rows
  \<open>2^53 + 3\<close> (complete) and \<open>2^53 + 4\<close> (backlog), a call for the id \<open>2^53 + 4\<close> with
  its own status \<open>backlog\<close> and no priority finds the row \<open>2^53 + 3\<close> first, whose id
  is read as \<open>2^53 + 4\<close>, takes the request for a lane change and writes priority 2 to
  the row \<open>2^53 + 4\<close>.
\<close>

theorem noop_unsafe_ids_counterexample:
  "stored_row [row 9007199254740995 ''complete'' 1, row 9007199254740996 ''backlog'' 1]
       9007199254740996
     = Some (row 9007199254740996 ''backlog'' 1)
   \<and> put_client [row 9007199254740995 ''complete'' 1, row 9007199254740996 ''backlog'' 1]
       (Some 9007199254740996) (Some ''backlog'') None
     = (Response 200 (Clients [row 9007199254740996 ''backlog'' 2,
          row 9007199254740996 ''complete'' 1]),
        [row 9007199254740995 ''complete'' 1, row 9007199254740996 ''backlog'' 2])"
  by (simp add: handler_defs stored_row_def)

text \<open>
  C9, amended. When the stored ids and priorities are safe integers, a call whose status
  is absent or equal to the target's current status, and whose priority is absent,
  writes nothing: the database is returned as it was, every row with its status and
  priority, and the response lists the same rows ordered by status, then priority.
\<close>

theorem noop_call:
  assumes "safe_ids db" and "safe_priorities db"
    and "stored_row db i = Some cl" and "st = None \<or> st = Some (status cl)"
  shows "put_client db (Some i) st None
       = (Response 200 (Clients (sort_key (\<lambda>c. (status c, priority c)) db)), db)
     \<and> sorted (map (\<lambda>c. (status c, priority c)) (sort_key (\<lambda>c. (status c, priority c)) db))
     \<and> mset (sort_key (\<lambda>c. (status c, priority c)) db) = mset db"
proof -
  have "\<not> lane_change_requested st cl"
    using assms(4) by (auto simp: lane_change_requested_def)
  then have put: "put_client db (Some i) st None
      = (Response 200 (Clients (select_all_ordered db)), db)"
    by (simp add: put_client_found[OF assms(1,3)] after_status_no_change send_clients_def)
  have "read_row c = c" if "c \<in> set db" for c
    using that assms(1,2)
    by (simp add: read_row_def to_double_safe safe_ids_def safe_priorities_def list_all_iff)
  then have "map read_row (sort_key (\<lambda>c. (status c, priority c)) db)
      = map (\<lambda>c. c) (sort_key (\<lambda>c. (status c, priority c)) db)"
    by (intro map_cong[OF refl]) simp
  then have "select_all_ordered db = sort_key (\<lambda>c. (status c, priority c)) db"
    by (simp add: select_all_ordered_def)
  with put show ?thesis
    by simp
qed

theorem noop_call_witness:
  "stored_row [row 1 ''complete'' 1, row 2 ''backlog'' 2, row 3 ''backlog'' 1] 2
     = Some (row 2 ''backlog'' 2)
   \<and> put_client [row 1 ''complete'' 1, row 2 ''backlog'' 2, row 3 ''backlog'' 1] (Some 2)
        (Some ''backlog'') None
     = (Response 200 (Clients [row 3 ''backlog'' 1, row 2 ''backlog'' 2, row 1 ''complete'' 1]),
        [row 1 ''complete'' 1, row 2 ''backlog'' 2, row 3 ''backlog'' 1])"
proof -
  let ?db = "[row 1 ''complete'' 1, row 2 ''backlog'' 2, row 3 ''backlog'' 1]"
  have sf: "safe_ids ?db"
    by (simp add: safe_ids_def safe_integer_def row_def)
  have sp: "safe_priorities ?db"
    by (simp add: safe_priorities_def safe_integer_def row_def)
  have f: "stored_row ?db 2 = Some (row 2 ''backlog'' 2)"
    by (simp add: stored_row_def row_def)
  have s: "Some ''backlog'' = None \<or> Some ''backlog'' = Some (status (row 2 ''backlog'' 2))"
    by (simp add: row_def)
  have o: "sort_key (\<lambda>c. (status c, priority c)) ?db
      = [row 3 ''backlog'' 1, row 2 ''backlog'' 2, row 1 ''complete'' 1]"
    by (simp add: row_def)
  from noop_call[OF sf sp f s] f show ?thesis
    by (simp only: o)
qed

text \<open>
  C6 as stated fails on the handler, which reads ids as doubles. In a lane with the ids
  5, \<open>2^53\<close>, \<open>2^53 + 1\<close> ranked 1, 3, 2, moving row 5 to another lane re-ranks the two
  rows left by their read ids, both \<open>2^53\<close>: the row \<open>2^53\<close> is written twice and the old
  lane ends with the priorities 2, 2.
\<close>

theorem lane_change_unsafe_ids_counterexample:
  "unique_ids [row 5 ''backlog'' 1, row 9007199254740992 ''backlog'' 3,
      row 9007199254740993 ''backlog'' 2]
   \<and> put_client [row 5 ''backlog'' 1, row 9007199254740992 ''backlog'' 3,
        row 9007199254740993 ''backlog'' 2] (Some 5) (Some ''complete'') None
     = (Response 200 (Clients [row 9007199254740992 ''backlog'' 2,
          row 9007199254740992 ''backlog'' 2, row 5 ''complete'' 1]),
        [row 5 ''complete'' 1, row 9007199254740992 ''backlog'' 2,
         row 9007199254740993 ''backlog'' 2])
   \<and> \<not> contiguous (lane [row 5 ''complete'' 1, row 9007199254740992 ''backlog'' 2,
         row 9007199254740993 ''backlog'' 2] ''backlog'')"
proof -
  let ?db = "[row 5 ''backlog'' 1, row 9007199254740992 ''backlog'' 3,
      row 9007199254740993 ''backlog'' 2]"
  let ?db' = "[row 5 ''complete'' 1, row 9007199254740992 ''backlog'' 2,
      row 9007199254740993 ''backlog'' 2]"
  have u: "unique_ids ?db"
    by (simp add: unique_ids_def row_def)
  have r: "put_client ?db (Some 5) (Some ''complete'') None
     = (Response 200 (Clients [row 9007199254740992 ''backlog'' 2,
          row 9007199254740992 ''backlog'' 2, row 5 ''complete'' 1]), ?db')"
    by (simp add: handler_defs)
  have n: "\<not> contiguous (lane ?db' ''backlog'')"
    by (simp add: contiguous_def lane_def row_def)
  show ?thesis
    by (rule conjI[OF u conjI[OF r n]])
qed

text \<open>
  C6, amended. When the ids are unique safe integers: a lane change without a priority,
  into a lane that holds K rows, succeeds; the moved row ends with the new status and
  priority K + 1, the destination lane is its former rows and the moved row, and the
  rows left in the old lane have exactly the priorities 1, ..., (old size - 1).
\<close>

theorem lane_change_default_placement:
  assumes "unique_ids db" and "safe_ids db" and "stored_row db i = Some cl"
    and "s \<noteq> []" and "s \<noteq> status cl"
    and "db' = snd (put_client db (Some i) (Some s) None)"
  shows "code (fst (put_client db (Some i) (Some s) None)) = 200
     \<and> stored_row db' i = Some (cl\<lparr>status := s, priority := int (length (lane db s)) + 1\<rparr>)
     \<and> mset (lane db' s)
         = mset (lane db s) + {#cl\<lparr>status := s, priority := int (length (lane db s)) + 1\<rparr>#}
     \<and> contiguous (lane db' (status cl))
     \<and> Suc (length (lane db' (status cl))) = length (lane db (status cl))"
proof -
  note u = assms(1) and sf = assms(2) and t = assms(3)
  have ne: "s \<noteq> status cl" by (rule assms(5))
  note put = put_client_move_only[OF u sf t assms(4) ne]
  have db': "db' = map (moved db cl i s) db"
    by (simp add: assms(6) put send_clients_def)
  have old: "lane db' (status cl)
      = map (assign (others db (status cl) i) 0) (others db (status cl) i)"
    unfolding db' by (rule moved_old_lane[OF u t ne])
  have "map priority (lane db' (status cl)) = map int [1..<Suc (length (lane db' (status cl)))]"
    by (simp only: old assign_self_priorities[OF others_distinct[OF u]] length_map)
  then have c: "contiguous (lane db' (status cl))"
    by (rule contiguous_ranks)
  have len: "Suc (length (lane db' (status cl))) = length (lane db (status cl))"
    by (simp add: old lane_length_target[OF u t])
  show ?thesis
    using c len
    by (simp add: put send_clients_def db' moved_select_target[OF t] moved_new_lane[OF u t ne])
qed

theorem lane_change_default_placement_witness:
  "unique_ids [row 1 ''backlog'' 1, row 2 ''backlog'' 2, row 3 ''backlog'' 3,
      row 4 ''complete'' 1, row 5 ''complete'' 2]
   \<and> put_client [row 1 ''backlog'' 1, row 2 ''backlog'' 2, row 3 ''backlog'' 3,
        row 4 ''complete'' 1, row 5 ''complete'' 2] (Some 2) (Some ''complete'') None
     = (Response 200 (Clients [row 1 ''backlog'' 1, row 3 ''backlog'' 2, row 4 ''complete'' 1,
          row 5 ''complete'' 2, row 2 ''complete'' 3]),
        [row 1 ''backlog'' 1, row 2 ''complete'' 3, row 3 ''backlog'' 2,
         row 4 ''complete'' 1, row 5 ''complete'' 2])
   \<and> stored_row [row 1 ''backlog'' 1, row 2 ''complete'' 3, row 3 ''backlog'' 2,
         row 4 ''complete'' 1, row 5 ''complete'' 2] 2 = Some (row 2 ''complete'' 3)
   \<and> contiguous (lane [row 1 ''backlog'' 1, row 2 ''complete'' 3, row 3 ''backlog'' 2,
         row 4 ''complete'' 1, row 5 ''complete'' 2] ''backlog'')"
proof -
  let ?db = "[row 1 ''backlog'' 1, row 2 ''backlog'' 2, row 3 ''backlog'' 3,
      row 4 ''complete'' 1, row 5 ''complete'' 2]"
  let ?db' = "[row 1 ''backlog'' 1, row 2 ''complete'' 3, row 3 ''backlog'' 2,
         row 4 ''complete'' 1, row 5 ''complete'' 2]"
  have u: "unique_ids ?db"
    by (simp add: unique_ids_def row_def)
  have sf: "safe_ids ?db"
    by (simp add: safe_ids_def safe_integer_def row_def)
  have f: "stored_row ?db 2 = Some (row 2 ''backlog'' 2)"
    by (simp add: stored_row_def row_def)
  have s: "''complete'' \<noteq> []" "''complete'' \<noteq> status (row 2 ''backlog'' 2)"
    by (simp_all add: row_def)
  have r: "put_client ?db (Some 2) (Some ''complete'') None
     = (Response 200 (Clients [row 1 ''backlog'' 1, row 3 ''backlog'' 2, row 4 ''complete'' 1,
          row 5 ''complete'' 2, row 2 ''complete'' 3]), ?db')"
    by (simp add: handler_defs)
  then have d: "?db' = snd (put_client ?db (Some 2) (Some ''complete'') None)"
    by simp
  have k: "(row 2 ''backlog'' 2)\<lparr>status := ''complete'', priority := int (length (lane ?db ''complete'')) + 1\<rparr>
      = row 2 ''complete'' 3"
    by (simp add: row_def lane_def)
  have st: "status (row 2 ''backlog'' 2) = ''backlog''"
    by (simp add: row_def)
  from lane_change_default_placement[OF u sf f s d] u r show ?thesis
    by (simp only: k st)
qed

text \<open>
  C10 as stated fails on the handler, which reads ids as doubles. With the backlog rows
  5, 6 and \<open>2^53 + 1\<close> ranked 1, 2, 3 and the complete row \<open>2^53\<close>, a reorder of row 5
  within the backlog writes priority 3 under the read id \<open>2^53\<close>, which is the stored id
  of the complete row: a row of a lane that is neither the original nor the effective
  lane is rewritten.
\<close>

theorem other_lanes_unsafe_ids_counterexample:
  "unique_ids [row 5 ''backlog'' 1, row 6 ''backlog'' 2, row 9007199254740992 ''complete'' 1,
      row 9007199254740993 ''backlog'' 3]
   \<and> put_client [row 5 ''backlog'' 1, row 6 ''backlog'' 2, row 9007199254740992 ''complete'' 1,
        row 9007199254740993 ''backlog'' 3] (Some 5) None (Some 1)
     = (Response 200 (Clients [row 5 ''backlog'' 1, row 6 ''backlog'' 2,
          row 9007199254740992 ''backlog'' 3, row 9007199254740992 ''complete'' 3]),
        [row 5 ''backlog'' 1, row 6 ''backlog'' 2, row 9007199254740992 ''complete'' 3,
         row 9007199254740993 ''backlog'' 3])
   \<and> lane [row 5 ''backlog'' 1, row 6 ''backlog'' 2, row 9007199254740992 ''complete'' 3,
         row 9007199254740993 ''backlog'' 3] ''complete''
     \<noteq> lane [row 5 ''backlog'' 1, row 6 ''backlog'' 2, row 9007199254740992 ''complete'' 1,
         row 9007199254740993 ''backlog'' 3] ''complete''"
proof -
  let ?db = "[row 5 ''backlog'' 1, row 6 ''backlog'' 2, row 9007199254740992 ''complete'' 1,
      row 9007199254740993 ''backlog'' 3]"
  let ?db' = "[row 5 ''backlog'' 1, row 6 ''backlog'' 2, row 9007199254740992 ''complete'' 3,
      row 9007199254740993 ''backlog'' 3]"
  have u: "unique_ids ?db"
    by (simp add: unique_ids_def row_def)
  have r: "put_client ?db (Some 5) None (Some 1)
     = (Response 200 (Clients [row 5 ''backlog'' 1, row 6 ''backlog'' 2,
          row 9007199254740992 ''backlog'' 3, row 9007199254740992 ''complete'' 3]), ?db')"
    by (simp add: handler_defs)
  have n: "lane ?db' ''complete'' \<noteq> lane ?db ''complete''"
    by (simp add: lane_def row_def)
  show ?thesis
    by (rule conjI[OF u conjI[OF r n]])
qed

text \<open>
  C10, amended. When the ids are unique safe integers, a successful call keeps the ids
  of the table, row by row, and leaves every row whose status is neither the target's
  original lane nor the effective lane (\<open>status || client.status\<close>) as it was, status
  and priority; the lanes of all other statuses are the same lists of rows before and
  after.
\<close>

theorem other_lanes_unchanged:
  assumes "unique_ids db" and "safe_ids db" and "stored_row db i = Some cl"
    and "code (fst (put_client db (Some i) st pr)) = 200"
    and "db' = snd (put_client db (Some i) st pr)"
  shows "map client_id db' = map client_id db
     \<and> (\<forall>k < length db. status (db ! k) \<noteq> status cl \<longrightarrow>
           status (db ! k) \<noteq> status_or st (status cl) \<longrightarrow> db' ! k = db ! k)
     \<and> (\<forall>t. t \<noteq> status cl \<longrightarrow> t \<noteq> status_or st (status cl) \<longrightarrow> lane db' t = lane db t)"
  using put_client_frame[OF assms(1,2,3,5)] by blast

theorem other_lanes_unchanged_witness:
  "unique_ids [row 1 ''backlog'' 1, row 2 ''backlog'' 2, row 3 ''in-progress'' 1,
      row 4 ''complete'' 2, row 5 ''complete'' 1]
   \<and> put_client [row 1 ''backlog'' 1, row 2 ''backlog'' 2, row 3 ''in-progress'' 1,
        row 4 ''complete'' 2, row 5 ''complete'' 1] (Some 1) (Some ''in-progress'') (Some 1)
     = (Response 200 (Clients [row 2 ''backlog'' 1, row 5 ''complete'' 1, row 4 ''complete'' 2,
          row 1 ''in-progress'' 1, row 3 ''in-progress'' 2]),
        [row 1 ''in-progress'' 1, row 2 ''backlog'' 1, row 3 ''in-progress'' 2,
         row 4 ''complete'' 2, row 5 ''complete'' 1])
   \<and> lane (snd (put_client [row 1 ''backlog'' 1, row 2 ''backlog'' 2, row 3 ''in-progress'' 1,
        row 4 ''complete'' 2, row 5 ''complete'' 1] (Some 1) (Some ''in-progress'') (Some 1)))
        ''complete''
     = [row 4 ''complete'' 2, row 5 ''complete'' 1]"
proof -
  let ?db = "[row 1 ''backlog'' 1, row 2 ''backlog'' 2, row 3 ''in-progress'' 1,
      row 4 ''complete'' 2, row 5 ''complete'' 1]"
  let ?db' = "snd (put_client ?db (Some 1) (Some ''in-progress'') (Some 1))"
  have u: "unique_ids ?db"
    by (simp add: unique_ids_def row_def)
  have sf: "safe_ids ?db"
    by (simp add: safe_ids_def safe_integer_def row_def)
  have f: "stored_row ?db 1 = Some (row 1 ''backlog'' 1)"
    by (simp add: stored_row_def row_def)
  have r: "put_client ?db (Some 1) (Some ''in-progress'') (Some 1)
     = (Response 200 (Clients [row 2 ''backlog'' 1, row 5 ''complete'' 1, row 4 ''complete'' 2,
          row 1 ''in-progress'' 1, row 3 ''in-progress'' 2]),
        [row 1 ''in-progress'' 1, row 2 ''backlog'' 1, row 3 ''in-progress'' 2,
         row 4 ''complete'' 2, row 5 ''complete'' 1])"
    by (simp add: handler_defs)
  then have ok: "code (fst (put_client ?db (Some 1) (Some ''in-progress'') (Some 1))) = 200"
    by simp
  have ne: "''complete'' \<noteq> status (row 1 ''backlog'' 1)"
      "''complete'' \<noteq> status_or (Some ''in-progress'') (status (row 1 ''backlog'' 1))"
    by (simp_all add: row_def status_or_def)
  have l: "lane ?db ''complete'' = [row 4 ''complete'' 2, row 5 ''complete'' 1]"
    by (simp add: lane_def row_def)
  from other_lanes_unchanged[OF u sf f ok refl] ne
  have "lane ?db' ''complete'' = lane ?db ''complete''"
    by blast
  with u r l show ?thesis by (simp only:)
qed

text \<open>
  C7 as stated fails on the handler, which reads ids as doubles. In a lane with the ids
  7, \<open>2^53\<close>, \<open>2^53 + 1\<close> ranked 1, 2, 3, moving row 7 to priority 2 builds the sequence
  of the read ids \<open>2^53\<close>, 7, \<open>2^53\<close>: the row \<open>2^53\<close> is written twice and ends with
  priority 3, not 1, and the lane ends with the priorities 2, 3, 3.
\<close>

theorem reorder_unsafe_ids_counterexample:
  "unique_ids [row 7 ''backlog'' 1, row 9007199254740992 ''backlog'' 2,
      row 9007199254740993 ''backlog'' 3]
   \<and> put_client [row 7 ''backlog'' 1, row 9007199254740992 ''backlog'' 2,
        row 9007199254740993 ''backlog'' 3] (Some 7) None (Some 2)
     = (Response 200 (Clients [row 7 ''backlog'' 2, row 9007199254740992 ''backlog'' 3,
          row 9007199254740992 ''backlog'' 3]),
        [row 7 ''backlog'' 2, row 9007199254740992 ''backlog'' 3,
         row 9007199254740993 ''backlog'' 3])
   \<and> stored_row [row 7 ''backlog'' 2, row 9007199254740992 ''backlog'' 3,
         row 9007199254740993 ''backlog'' 3] 9007199254740992
     = Some (row 9007199254740992 ''backlog'' 3)"
proof -
  let ?db = "[row 7 ''backlog'' 1, row 9007199254740992 ''backlog'' 2,
      row 9007199254740993 ''backlog'' 3]"
  let ?db' = "[row 7 ''backlog'' 2, row 9007199254740992 ''backlog'' 3,
      row 9007199254740993 ''backlog'' 3]"
  have u: "unique_ids ?db"
    by (simp add: unique_ids_def row_def)
  have r: "put_client ?db (Some 7) None (Some 2)
     = (Response 200 (Clients [row 7 ''backlog'' 2, row 9007199254740992 ''backlog'' 3,
          row 9007199254740992 ''backlog'' 3]), ?db')"
    by (simp add: handler_defs)
  have n: "stored_row ?db' 9007199254740992 = Some (row 9007199254740992 ''backlog'' 3)"
    by (simp add: stored_row_def row_def)
  show ?thesis
    by (rule conjI[OF u conjI[OF r n]])
qed

text \<open>
  C7, amended. When the ids are unique safe integers: let \<open>eff\<close> be the effective lane
  (the new status when the call gives one, the target's status otherwise), \<open>db1\<close> the
  database the same call without the priority leaves (the lane change, if one is
  requested; the database itself otherwise), \<open>tgt\<close> the target as \<open>db1\<close> stores it,
  \<open>seq\<close> the rows of the effective lane of \<open>db1\<close> other than the target, sorted by
  priority ascending, and \<open>new\<close> the sequence \<open>seq\<close> with the target inserted at the
  zero-based index p - 1. For a priority p in the range 1, ..., (length of \<open>seq\<close> + 1) the
  call succeeds, \<open>new\<close> holds exactly the rows of the effective lane, the row at index k
  of \<open>new\<close> ends with priority k + 1 and is otherwise as \<open>db1\<close> stores it, and the lanes
  other than the effective lane are as in \<open>db1\<close>. The first witness is the lane ranked
  1 to 5 in which the row at rank 5 asks for priority 2; the second is a lane change
  with priority 3.
\<close>

theorem reorder_in_effective_lane:
  assumes "unique_ids db" and "safe_ids db" and "stored_row db i = Some cl"
    and "eff = (case st of None \<Rightarrow> status cl | Some s \<Rightarrow> if s = [] then status cl else s)"
    and "db1 = snd (put_client db (Some i) st None)"
    and "stored_row db1 i = Some tgt"
    and "seq = filter (\<lambda>c. client_id c \<noteq> i) (sort_key priority (lane db1 eff))"
    and "1 \<le> p" and "p \<le> int (length seq) + 1"
    and "new = take (nat (p - 1)) seq @ tgt # drop (nat (p - 1)) seq"
    and "db' = snd (put_client db (Some i) st (Some p))"
  shows "code (fst (put_client db (Some i) st (Some p))) = 200
     \<and> status tgt = eff
     \<and> (\<not> lane_change_requested st cl \<longrightarrow> db1 = db \<and> tgt = cl \<and> eff = status cl)
     \<and> mset new = mset (lane db1 eff)
     \<and> (\<forall>k < length new.
           stored_row db' (client_id (new ! k)) = Some ((new ! k)\<lparr>priority := int k + 1\<rparr>))
     \<and> (\<forall>t. t \<noteq> eff \<longrightarrow> lane db' t = lane db1 t)"
proof -
  note u = assms(1) and sf = assms(2) and t = assms(3)
  have eff: "eff = status_or st (status cl)"
    by (simp add: assms(4) status_or_def split: option.splits)
  have db1: "db1 = after_status db cl i st"
    by (simp only: assms(5) put_client_status_only[OF sf t])
  note t1 = assms(6)
  have seq: "seq = swimlane db1 eff i"
    by (simp only: assms(7) swimlane_def)
  have p: "1 \<le> p" "p \<le> int (length (swimlane db1 eff i)) + 1"
    using assms(8,9) by (simp_all only: seq)
  have new: "new = new_sequence db1 tgt i eff p"
    by (simp only: assms(10) seq new_sequence_def)
  note g = reorder_general[OF u sf t db1 t1 eff p new]
  have db': "db' = map (assign new 0) db1"
    by (simp add: assms(11) g(1) send_clients_def)
  have ok: "code (fst (put_client db (Some i) st (Some p))) = 200"
    by (simp add: g(1) send_clients_def)
  have same: "db1 = db \<and> tgt = cl \<and> eff = status cl" if n: "\<not> lane_change_requested st cl"
  proof -
    have a: "db1 = db"
      by (simp only: db1 after_status_no_change[OF n])
    with t t1 have b: "tgt = cl" by simp
    have c: "eff = status cl"
      by (simp only: eff status_or_no_change[OF n])
    from a b c show ?thesis by blast
  qed
  have u1: "unique_ids db1"
    unfolding db1 by (rule after_status_unique[OF u sf])
  have ids: "client_id ` set new = client_id ` set (lane db1 eff)"
    by (simp only: mset_eq_setD[OF g(3)])
  have frame: "lane db' t = lane db1 t" if "t \<noteq> eff" for t
    unfolding db' lane_assign by (rule assign_other_lane[OF u1 ids that])
  have ranks: "stored_row db' (client_id (new ! k)) = Some ((new ! k)\<lparr>priority := int k + 1\<rparr>)"
    if "k < length new" for k
    unfolding db' by (rule g(4)[OF that])
  show ?thesis
    using ok g(2) same g(3) ranks frame by blast
qed

theorem reorder_in_effective_lane_witness:
  "put_client [row 1 ''backlog'' 3, row 2 ''backlog'' 1, row 3 ''backlog'' 5,
        row 4 ''backlog'' 2, row 5 ''backlog'' 4] (Some 3) None (Some 2)
     = (Response 200 (Clients [row 2 ''backlog'' 1, row 3 ''backlog'' 2, row 4 ''backlog'' 3,
          row 1 ''backlog'' 4, row 5 ''backlog'' 5]),
        [row 1 ''backlog'' 4, row 2 ''backlog'' 1, row 3 ''backlog'' 2,
         row 4 ''backlog'' 3, row 5 ''backlog'' 5])
   \<and> stored_row (snd (put_client [row 1 ''backlog'' 3, row 2 ''backlog'' 1,
         row 3 ''backlog'' 5, row 4 ''backlog'' 2, row 5 ''backlog'' 4] (Some 3) None (Some 2))) 3
     = Some (row 3 ''backlog'' 2)
   \<and> stored_row (snd (put_client [row 1 ''backlog'' 3, row 2 ''backlog'' 1,
         row 3 ''backlog'' 5, row 4 ''backlog'' 2, row 5 ''backlog'' 4] (Some 3) None (Some 2))) 4
     = Some (row 4 ''backlog'' 3)
   \<and> put_client [row 1 ''backlog'' 1, row 2 ''complete'' 2, row 3 ''complete'' 1,
        row 4 ''complete'' 3, row 5 ''backlog'' 2] (Some 1) (Some ''complete'') (Some 3)
     = (Response 200 (Clients [row 5 ''backlog'' 1, row 3 ''complete'' 1, row 2 ''complete'' 2,
          row 1 ''complete'' 3, row 4 ''complete'' 4]),
        [row 1 ''complete'' 3, row 2 ''complete'' 2, row 3 ''complete'' 1,
         row 4 ''complete'' 4, row 5 ''backlog'' 1])
   \<and> stored_row (snd (put_client [row 1 ''backlog'' 1, row 2 ''complete'' 2,
         row 3 ''complete'' 1, row 4 ''complete'' 3, row 5 ''backlog'' 2]
         (Some 1) (Some ''complete'') (Some 3))) 1
     = Some (row 1 ''complete'' 3)"
proof -
  let ?db = "[row 1 ''backlog'' 3, row 2 ''backlog'' 1, row 3 ''backlog'' 5,
      row 4 ''backlog'' 2, row 5 ''backlog'' 4]"
  let ?seq = "[row 2 ''backlog'' 1, row 4 ''backlog'' 2, row 1 ''backlog'' 3, row 5 ''backlog'' 4]"
  let ?new = "[row 2 ''backlog'' 1, row 3 ''backlog'' 5, row 4 ''backlog'' 2,
      row 1 ''backlog'' 3, row 5 ''backlog'' 4]"
  have u: "unique_ids ?db"
    by (simp add: unique_ids_def row_def)
  have sf: "safe_ids ?db"
    by (simp add: safe_ids_def safe_integer_def row_def)
  have f: "stored_row ?db 3 = Some (row 3 ''backlog'' 5)"
    by (simp add: stored_row_def row_def)
  have e: "''backlog'' = (case None of None \<Rightarrow> status (row 3 ''backlog'' 5)
      | Some s \<Rightarrow> if s = [] then status (row 3 ''backlog'' 5) else s)"
    by (simp add: row_def)
  have d1: "?db = snd (put_client ?db (Some 3) None None)"
    by (simp add: handler_defs)
  have seq: "?seq = filter (\<lambda>c. client_id c \<noteq> 3) (sort_key priority (lane ?db ''backlog''))"
    by (simp add: lane_def row_def)
  have p: "(1::int) \<le> 2" "2 \<le> int (length ?seq) + 1"
    by simp_all
  have new: "?new = take (nat (2 - 1)) ?seq @ row 3 ''backlog'' 5 # drop (nat (2 - 1)) ?seq"
    by simp
  have r: "put_client ?db (Some 3) None (Some 2)
     = (Response 200 (Clients [row 2 ''backlog'' 1, row 3 ''backlog'' 2, row 4 ''backlog'' 3,
          row 1 ''backlog'' 4, row 5 ''backlog'' 5]),
        [row 1 ''backlog'' 4, row 2 ''backlog'' 1, row 3 ''backlog'' 2,
         row 4 ''backlog'' 3, row 5 ''backlog'' 5])"
    by (simp add: handler_defs)
  from reorder_in_effective_lane[OF u sf f e d1 f seq p new refl]
  have w: "\<forall>k < length ?new.
      stored_row (snd (put_client ?db (Some 3) None (Some 2))) (client_id (?new ! k))
        = Some ((?new ! k)\<lparr>priority := int k + 1\<rparr>)"
    by (elim conjE)
  have k1: "1 < length ?new" "client_id (?new ! 1) = 3"
      "(?new ! 1)\<lparr>priority := int 1 + 1\<rparr> = row 3 ''backlog'' 2"
    by (simp_all add: row_def)
  have k2: "2 < length ?new" "client_id (?new ! 2) = 4"
      "(?new ! 2)\<lparr>priority := int 2 + 1\<rparr> = row 4 ''backlog'' 3"
    by (simp_all add: row_def)
  from w k1(1) have "stored_row (snd (put_client ?db (Some 3) None (Some 2))) (client_id (?new ! 1))
      = Some ((?new ! 1)\<lparr>priority := int 1 + 1\<rparr>)"
    by blast
  then have w1: "stored_row (snd (put_client ?db (Some 3) None (Some 2))) 3
      = Some (row 3 ''backlog'' 2)"
    by (simp only: k1)
  from w k2(1) have "stored_row (snd (put_client ?db (Some 3) None (Some 2))) (client_id (?new ! 2))
      = Some ((?new ! 2)\<lparr>priority := int 2 + 1\<rparr>)"
    by blast
  then have w2: "stored_row (snd (put_client ?db (Some 3) None (Some 2))) 4
      = Some (row 4 ''backlog'' 3)"
    by (simp only: k2)
  let ?dc = "[row 1 ''backlog'' 1, row 2 ''complete'' 2, row 3 ''complete'' 1,
      row 4 ''complete'' 3, row 5 ''backlog'' 2]"
  let ?dc1 = "[row 1 ''complete'' 4, row 2 ''complete'' 2, row 3 ''complete'' 1,
      row 4 ''complete'' 3, row 5 ''backlog'' 1]"
  let ?seqc = "[row 3 ''complete'' 1, row 2 ''complete'' 2, row 4 ''complete'' 3]"
  let ?newc = "[row 3 ''complete'' 1, row 2 ''complete'' 2, row 1 ''complete'' 4,
      row 4 ''complete'' 3]"
  have uc: "unique_ids ?dc"
    by (simp add: unique_ids_def row_def)
  have sfc: "safe_ids ?dc"
    by (simp add: safe_ids_def safe_integer_def row_def)
  have fc: "stored_row ?dc 1 = Some (row 1 ''backlog'' 1)"
    by (simp add: stored_row_def row_def)
  have ec: "''complete'' = (case Some ''complete'' of None \<Rightarrow> status (row 1 ''backlog'' 1)
      | Some s \<Rightarrow> if s = [] then status (row 1 ''backlog'' 1) else s)"
    by simp
  have dc1: "?dc1 = snd (put_client ?dc (Some 1) (Some ''complete'') None)"
    by (simp add: handler_defs)
  have fc1: "stored_row ?dc1 1 = Some (row 1 ''complete'' 4)"
    by (simp add: stored_row_def row_def)
  have seqc: "?seqc = filter (\<lambda>c. client_id c \<noteq> 1) (sort_key priority (lane ?dc1 ''complete''))"
    by (simp add: lane_def row_def)
  have pc: "(1::int) \<le> 3" "3 \<le> int (length ?seqc) + 1"
    by simp_all
  have newc: "?newc = take (nat (3 - 1)) ?seqc @ row 1 ''complete'' 4 # drop (nat (3 - 1)) ?seqc"
    by simp
  have rc: "put_client ?dc (Some 1) (Some ''complete'') (Some 3)
     = (Response 200 (Clients [row 5 ''backlog'' 1, row 3 ''complete'' 1, row 2 ''complete'' 2,
          row 1 ''complete'' 3, row 4 ''complete'' 4]),
        [row 1 ''complete'' 3, row 2 ''complete'' 2, row 3 ''complete'' 1,
         row 4 ''complete'' 4, row 5 ''backlog'' 1])"
    by (simp add: handler_defs)
  from reorder_in_effective_lane[OF uc sfc fc ec dc1 fc1 seqc pc newc refl]
  have wc: "\<forall>k < length ?newc.
      stored_row (snd (put_client ?dc (Some 1) (Some ''complete'') (Some 3))) (client_id (?newc ! k))
        = Some ((?newc ! k)\<lparr>priority := int k + 1\<rparr>)"
    by (elim conjE)
  have kc: "2 < length ?newc" "client_id (?newc ! 2) = 1"
      "(?newc ! 2)\<lparr>priority := int 2 + 1\<rparr> = row 1 ''complete'' 3"
    by (simp_all add: row_def)
  from wc kc(1)
  have "stored_row (snd (put_client ?dc (Some 1) (Some ''complete'') (Some 3))) (client_id (?newc ! 2))
      = Some ((?newc ! 2)\<lparr>priority := int 2 + 1\<rparr>)"
    by blast
  then have w3: "stored_row (snd (put_client ?dc (Some 1) (Some ''complete'') (Some 3))) 1
      = Some (row 1 ''complete'' 3)"
    by (simp only: kc)
  show ?thesis
    by (rule conjI[OF r conjI[OF w1 conjI[OF w2 conjI[OF rc w3]]]])
qed

text \<open>
  C8 as stated fails on the handler, which reads ids as doubles. Moving row 5 with
  priority 1 into a lane of the three rows \<open>2^53\<close>, \<open>2^53 + 1\<close>, 6 ranked 2, 1, 3 leaves
  the row \<open>2^53 + 1\<close> at priority 1, beside the moved row, and puts the row \<open>2^53\<close> at
  priority 3: the three rows end with the priorities 3, 1, 4, not 2, 3, 4.
\<close>

theorem combined_unsafe_ids_counterexample:
  "unique_ids [row 5 ''backlog'' 1, row 9007199254740992 ''complete'' 2,
      row 9007199254740993 ''complete'' 1, row 6 ''complete'' 3]
   \<and> contiguous (lane [row 5 ''backlog'' 1, row 9007199254740992 ''complete'' 2,
      row 9007199254740993 ''complete'' 1, row 6 ''complete'' 3] ''complete'')
   \<and> put_client [row 5 ''backlog'' 1, row 9007199254740992 ''complete'' 2,
        row 9007199254740993 ''complete'' 1, row 6 ''complete'' 3]
        (Some 5) (Some ''complete'') (Some 1)
     = (Response 200 (Clients [row 5 ''complete'' 1, row 9007199254740992 ''complete'' 1,
          row 9007199254740992 ''complete'' 3, row 6 ''complete'' 4]),
        [row 5 ''complete'' 1, row 9007199254740992 ''complete'' 3,
         row 9007199254740993 ''complete'' 1, row 6 ''complete'' 4])"
proof -
  let ?db = "[row 5 ''backlog'' 1, row 9007199254740992 ''complete'' 2,
      row 9007199254740993 ''complete'' 1, row 6 ''complete'' 3]"
  have u: "unique_ids ?db"
    by (simp add: unique_ids_def row_def)
  have c: "contiguous (lane ?db ''complete'')"
    by (simp add: contiguous_def lane_def row_def)
  have r: "put_client ?db (Some 5) (Some ''complete'') (Some 1)
     = (Response 200 (Clients [row 5 ''complete'' 1, row 9007199254740992 ''complete'' 1,
          row 9007199254740992 ''complete'' 3, row 6 ''complete'' 4]),
        [row 5 ''complete'' 1, row 9007199254740992 ''complete'' 3,
         row 9007199254740993 ''complete'' 1, row 6 ''complete'' 4])"
    by (simp add: handler_defs)
  show ?thesis
    by (rule conjI[OF u conjI[OF c r]])
qed

text \<open>
  C8, amended. When the ids are unique safe integers, a call with both a lane change and
  a priority does what the lane change alone followed by the reorder alone does: for
  every priority p, the same response and the same database as the call with only the
  status, followed on its result by the call with only the priority. The lane change
  appends the target to the destination lane, at priority K + 1 for a lane of K rows.
  For a priority q in the range 1, ..., K + 1, with \<open>seq\<close> the rows of the destination
  lane before the call sorted by priority ascending, and \<open>new\<close> the sequence \<open>seq\<close>
  with the appended target inserted at the zero-based index q - 1: the call succeeds,
  the row at index k of \<open>new\<close> ends with priority k + 1, and the rows left in the old
  lane have exactly the priorities 1, ..., (old size - 1). With priority 1 the moved row
  ends with priority 1, and when the destination lane was ranked 1, ..., K every row
  that was in it ends with its priority raised by one. The witness moves a row into a
  lane of size 3, once with priority 1 and once with priority 3.
\<close>

theorem combined_move_reorder:
  assumes "unique_ids db" and "safe_ids db" and "stored_row db i = Some cl"
    and "s \<noteq> []" and "s \<noteq> status cl"
    and "seq = sort_key priority (lane db s)"
    and "1 \<le> q" and "q \<le> int (length seq) + 1"
    and "tgt = cl\<lparr>status := s, priority := int (length seq) + 1\<rparr>"
    and "new = take (nat (q - 1)) seq @ tgt # drop (nat (q - 1)) seq"
    and "db' = snd (put_client db (Some i) (Some s) (Some q))"
  shows "put_client db (Some i) (Some s) (Some p)
       = put_client (snd (put_client db (Some i) (Some s) None)) (Some i) None (Some p)
     \<and> stored_row (snd (put_client db (Some i) (Some s) None)) i = Some tgt
     \<and> code (fst (put_client db (Some i) (Some s) (Some q))) = 200
     \<and> (\<forall>k < length new.
           stored_row db' (client_id (new ! k)) = Some ((new ! k)\<lparr>priority := int k + 1\<rparr>))
     \<and> contiguous (lane db' (status cl))
     \<and> Suc (length (lane db' (status cl))) = length (lane db (status cl))
     \<and> (q = 1 \<longrightarrow> stored_row db' i = Some (cl\<lparr>status := s, priority := 1\<rparr>))
     \<and> (q = 1 \<and> contiguous (lane db s) \<longrightarrow>
          (\<forall>c \<in> set (lane db s).
             stored_row db' (client_id c) = Some (c\<lparr>priority := priority c + 1\<rparr>)))"
proof -
  note u = assms(1) and sf = assms(2) and t = assms(3) and s = assms(4,5)
  note i = conjunct2[OF stored_row_SomeD[OF t]]
  let ?db1 = "map (moved db cl i s) db"
  have l: "lane_change_requested (Some s) cl"
    using s by (simp add: lane_change_requested_def)
  have so: "s = status_or (Some s) (status cl)"
    using s by (simp add: status_or_def)
  have a: "?db1 = after_status db cl i (Some s)"
    using after_status_moved[OF u sf l, of i] by (simp only: so[symmetric])
  have first: "snd (put_client db (Some i) (Some s) None) = ?db1"
    by (simp add: put_client_move_only[OF u sf t s] send_clients_def)
  have len: "length seq = length (lane db s)"
    by (simp add: assms(6))
  have t1: "stored_row ?db1 i = Some tgt"
    by (simp only: moved_select_target[OF t] assms(9) len)
  have sw: "swimlane ?db1 s i = seq"
    by (simp only: swimlane_others others_moved[OF u t s(2)] assms(6))
  have q: "1 \<le> q" "q \<le> int (length (swimlane ?db1 s i)) + 1"
    using assms(7,8) by (simp_all only: sw)
  have new: "new = new_sequence ?db1 tgt i s q"
    by (simp only: assms(10) new_sequence_def sw)
  note g = reorder_general[OF u sf t a t1 so q new]
  have db': "db' = map (assign new 0) ?db1"
    by (simp add: assms(11) g(1) send_clients_def)
  have ok: "code (fst (put_client db (Some i) (Some s) (Some q))) = 200"
    by (simp add: g(1) send_clients_def)
  have ranks: "stored_row db' (client_id (new ! k)) = Some ((new ! k)\<lparr>priority := int k + 1\<rparr>)"
    if "k < length new" for k
    unfolding db' by (rule g(4)[OF that])
  have u1: "unique_ids ?db1" by (rule moved_unique_ids[OF u])
  have ids: "client_id ` set new = client_id ` set (lane ?db1 s)"
    by (simp only: mset_eq_setD[OF g(3)])
  have old_same: "lane db' (status cl) = lane ?db1 (status cl)"
    unfolding db' lane_assign
    by (rule assign_other_lane[OF u1 ids]) (use s in simp)
  have old: "lane ?db1 (status cl)
      = map (assign (others db (status cl) i) 0) (others db (status cl) i)"
    by (rule moved_old_lane[OF u t s(2)])
  have "map priority (lane db' (status cl)) = map int [1..<Suc (length (lane db' (status cl)))]"
    by (simp only: old_same old assign_self_priorities[OF others_distinct[OF u]] length_map)
  then have c: "contiguous (lane db' (status cl))"
    by (rule contiguous_ranks)
  have ol: "Suc (length (lane db' (status cl))) = length (lane db (status cl))"
    by (simp add: old_same old lane_length_target[OF u t])
  have first_rank: "stored_row db' i = Some (cl\<lparr>status := s, priority := 1\<rparr>)" if q1: "q = 1"
  proof -
    have n: "new = tgt # seq" by (simp add: assms(10) q1)
    have "0 < length new" by (simp add: n)
    from ranks[OF this] i show ?thesis
      by (simp add: n assms(9))
  qed
  have shifted: "stored_row db' (client_id c) = Some (c\<lparr>priority := priority c + 1\<rparr>)"
    if q1: "q = 1" and ct: "contiguous (lane db s)" and c: "c \<in> set (lane db s)" for c
  proof -
    have n: "new = tgt # seq" by (simp add: assms(10) q1)
    have rows: "mset seq = mset (lane db s)" by (simp add: assms(6))
    have srt: "sorted (map priority seq)" by (simp add: assms(6))
    note pr = sorted_ranks_unique[OF ct rows srt]
    from c have "c \<in> set seq" by (simp add: assms(6))
    then obtain k where k: "k < length seq" "seq ! k = c"
      by (auto simp: in_set_conv_nth)
    have "priority c = map priority seq ! k"
      using k by simp
    also have "\<dots> = int k + 1"
      using k(1) by (simp only: pr) (simp add: nth_map del: upt_Suc)
    finally have pc: "priority c = int k + 1" .
    have k1: "Suc k < length new" "new ! Suc k = c"
      using k by (simp_all add: n)
    from ranks[OF k1(1)] show ?thesis
      by (simp add: k1(2) pc)
  qed
  show ?thesis
    using combined_is_sequence[OF u sf t s, of p] t1 ok ranks c ol first_rank shifted
    by (simp only: first) blast
qed

theorem combined_move_reorder_witness:
  "unique_ids [row 1 ''backlog'' 1, row 2 ''complete'' 2, row 3 ''complete'' 1,
      row 4 ''complete'' 3, row 5 ''backlog'' 2]
   \<and> contiguous (lane [row 1 ''backlog'' 1, row 2 ''complete'' 2, row 3 ''complete'' 1,
      row 4 ''complete'' 3, row 5 ''backlog'' 2] ''complete'')
   \<and> put_client [row 1 ''backlog'' 1, row 2 ''complete'' 2, row 3 ''complete'' 1,
        row 4 ''complete'' 3, row 5 ''backlog'' 2] (Some 1) (Some ''complete'') (Some 1)
     = (Response 200 (Clients [row 5 ''backlog'' 1, row 1 ''complete'' 1, row 3 ''complete'' 2,
          row 2 ''complete'' 3, row 4 ''complete'' 4]),
        [row 1 ''complete'' 1, row 2 ''complete'' 3, row 3 ''complete'' 2,
         row 4 ''complete'' 4, row 5 ''backlog'' 1])
   \<and> put_client [row 1 ''backlog'' 1, row 2 ''complete'' 2, row 3 ''complete'' 1,
        row 4 ''complete'' 3, row 5 ''backlog'' 2] (Some 1) (Some ''complete'') (Some 1)
     = put_client (snd (put_client [row 1 ''backlog'' 1, row 2 ''complete'' 2,
           row 3 ''complete'' 1, row 4 ''complete'' 3, row 5 ''backlog'' 2]
           (Some 1) (Some ''complete'') None)) (Some 1) None (Some 1)
   \<and> stored_row (snd (put_client [row 1 ''backlog'' 1, row 2 ''complete'' 2,
         row 3 ''complete'' 1, row 4 ''complete'' 3, row 5 ''backlog'' 2]
         (Some 1) (Some ''complete'') (Some 1))) 1
     = Some (row 1 ''complete'' 1)
   \<and> put_client [row 1 ''backlog'' 1, row 2 ''complete'' 2, row 3 ''complete'' 1,
        row 4 ''complete'' 3, row 5 ''backlog'' 2] (Some 1) (Some ''complete'') (Some 3)
     = (Response 200 (Clients [row 5 ''backlog'' 1, row 3 ''complete'' 1, row 2 ''complete'' 2,
          row 1 ''complete'' 3, row 4 ''complete'' 4]),
        [row 1 ''complete'' 3, row 2 ''complete'' 2, row 3 ''complete'' 1,
         row 4 ''complete'' 4, row 5 ''backlog'' 1])
   \<and> stored_row (snd (put_client [row 1 ''backlog'' 1, row 2 ''complete'' 2,
         row 3 ''complete'' 1, row 4 ''complete'' 3, row 5 ''backlog'' 2]
         (Some 1) (Some ''complete'') (Some 3))) 1
     = Some (row 1 ''complete'' 3)"
proof -
  let ?db = "[row 1 ''backlog'' 1, row 2 ''complete'' 2, row 3 ''complete'' 1,
      row 4 ''complete'' 3, row 5 ''backlog'' 2]"
  let ?seq = "[row 3 ''complete'' 1, row 2 ''complete'' 2, row 4 ''complete'' 3]"
  let ?tgt = "row 1 ''complete'' 4"
  have u: "unique_ids ?db"
    by (simp add: unique_ids_def row_def)
  have sf: "safe_ids ?db"
    by (simp add: safe_ids_def safe_integer_def row_def)
  have f: "stored_row ?db 1 = Some (row 1 ''backlog'' 1)"
    by (simp add: stored_row_def row_def)
  have s: "''complete'' \<noteq> []" "''complete'' \<noteq> status (row 1 ''backlog'' 1)"
    by (simp_all add: row_def)
  have c: "contiguous (lane ?db ''complete'')"
    by (simp add: contiguous_def lane_def row_def)
  have seq: "?seq = sort_key priority (lane ?db ''complete'')"
    by (simp add: lane_def row_def)
  have tgt: "?tgt = (row 1 ''backlog'' 1)\<lparr>status := ''complete'', priority := int (length ?seq) + 1\<rparr>"
    by (simp add: row_def)
  have q1: "(1::int) \<le> 1" "1 \<le> int (length ?seq) + 1"
    by simp_all
  have q3: "(1::int) \<le> 3" "3 \<le> int (length ?seq) + 1"
    by simp_all
  have r1: "put_client ?db (Some 1) (Some ''complete'') (Some 1)
     = (Response 200 (Clients [row 5 ''backlog'' 1, row 1 ''complete'' 1, row 3 ''complete'' 2,
          row 2 ''complete'' 3, row 4 ''complete'' 4]),
        [row 1 ''complete'' 1, row 2 ''complete'' 3, row 3 ''complete'' 2,
         row 4 ''complete'' 4, row 5 ''backlog'' 1])"
    by (simp add: handler_defs)
  have r3: "put_client ?db (Some 1) (Some ''complete'') (Some 3)
     = (Response 200 (Clients [row 5 ''backlog'' 1, row 3 ''complete'' 1, row 2 ''complete'' 2,
          row 1 ''complete'' 3, row 4 ''complete'' 4]),
        [row 1 ''complete'' 3, row 2 ''complete'' 2, row 3 ''complete'' 1,
         row 4 ''complete'' 4, row 5 ''backlog'' 1])"
    by (simp add: handler_defs)
  note w1 = combined_move_reorder[OF u sf f s seq q1 tgt refl refl, of 1]
  from w1[THEN conjunct1]
  have a: "put_client ?db (Some 1) (Some ''complete'') (Some 1)
     = put_client (snd (put_client ?db (Some 1) (Some ''complete'') None)) (Some 1) None (Some 1)" .
  have e1: "(row 1 ''backlog'' 1)\<lparr>status := ''complete'', priority := 1\<rparr> = row 1 ''complete'' 1"
    by (simp add: row_def)
  note w1_first = w1[THEN conjunct2, THEN conjunct2, THEN conjunct2, THEN conjunct2,
      THEN conjunct2, THEN conjunct2, THEN conjunct1, rule_format, OF refl]
  from w1_first have b: "stored_row (snd (put_client ?db (Some 1) (Some ''complete'') (Some 1))) 1
     = Some (row 1 ''complete'' 1)"
    by (simp only: e1)
  let ?new3 = "take (nat (3 - 1)) ?seq @ ?tgt # drop (nat (3 - 1)) ?seq"
  from combined_move_reorder[OF u sf f s seq q3 tgt refl refl, of 3,
      THEN conjunct2, THEN conjunct2, THEN conjunct2, THEN conjunct1]
  have w3: "\<forall>k < length ?new3.
      stored_row (snd (put_client ?db (Some 1) (Some ''complete'') (Some 3))) (client_id (?new3 ! k))
        = Some ((?new3 ! k)\<lparr>priority := int k + 1\<rparr>)" .
  have k: "2 < length ?new3" "client_id (?new3 ! 2) = 1"
      "(?new3 ! 2)\<lparr>priority := int 2 + 1\<rparr> = row 1 ''complete'' 3"
    by (simp_all add: row_def)
  from w3[rule_format, OF k(1)]
  have "stored_row (snd (put_client ?db (Some 1) (Some ''complete'') (Some 3))) (client_id (?new3 ! 2))
      = Some ((?new3 ! 2)\<lparr>priority := int 2 + 1\<rparr>)" .
  then have d: "stored_row (snd (put_client ?db (Some 1) (Some ''complete'') (Some 3))) 1
      = Some (row 1 ''complete'' 3)"
    by (simp only: k)
  show ?thesis
    by (rule conjI[OF u conjI[OF c conjI[OF r1 conjI[OF a conjI[OF b conjI[OF r3 d]]]]]])
qed







text \<open>
  C4. The handler does not check the status against the three lanes: a status that is
  none of them is written to the row, which becomes the only row of a new lane, and the
  call succeeds.
\<close>

theorem unrecognized_status_accepted:
  "put_client [row 1 ''backlog'' 1, row 2 ''backlog'' 2] (Some 1) (Some ''archived'') None
     = (Response 200 (Clients [row 1 ''archived'' 1, row 2 ''backlog'' 1]),
        [row 1 ''archived'' 1, row 2 ''backlog'' 1])"
  by (simp add: handler_defs Let_def)

text \<open>
  C5. The rows left in the old lane are ranked in storage order, not by their
  priorities. Moving row 2 of a lane ranked 1, 2, 3 to priority 1 leaves the rows 1 and
  2 stored in the order of priorities 2, 1; moving row 3 out of the lane then gives row
  1 the priority 1 and row 2 the priority 2, which swaps them.
\<close>

theorem old_lane_ranked_in_storage_order:
  "put_client [row 1 ''backlog'' 1, row 2 ''backlog'' 2, row 3 ''backlog'' 3]
       (Some 2) None (Some 1)
     = (Response 200 (Clients [row 2 ''backlog'' 1, row 1 ''backlog'' 2, row 3 ''backlog'' 3]),
        [row 1 ''backlog'' 2, row 2 ''backlog'' 1, row 3 ''backlog'' 3])
   \<and> put_client [row 1 ''backlog'' 2, row 2 ''backlog'' 1, row 3 ''backlog'' 3]
       (Some 3) (Some ''complete'') None
     = (Response 200 (Clients [row 1 ''backlog'' 1, row 2 ''backlog'' 2, row 3 ''complete'' 1]),
        [row 1 ''backlog'' 1, row 2 ''backlog'' 2, row 3 ''complete'' 1])"
  by (simp add: handler_defs Let_def)

end
